theory Spec2Isabelle
  imports Main "HOL-Library.AList" "HOL-Library.Char_ord" "HOL-Library.List_Lexorder"
    "HOL-Library.Word"
begin

section \<open>The user store of package tenant (tenant/storage_user.go)\<close>

text \<open>
  The store keeps two tables inside a caller-supplied key-value transaction: the primary
  table \<open>usersv1\<close> (encoded id to serialized user) and the name index \<open>userindexv1\<close>
  (name to encoded id). Every Go function of the file is a HOL function of the same name
  that takes the transaction and returns its result together with the transaction as the
  call left it; a Go \<open>error\<close> result is a value of the datatype \<open>error\<close>, \<open>nil\<close> is
  \<open>None\<close> (or the \<open>Inr\<close> side of a sum).
\<close>

subsection \<open>Data\<close>

type_synonym bytes = string

type_synonym ID = "64 word"

datatype Status = Active | Inactive

text \<open>
  Modelled from the spec: \<open>influxdb.User\<close>, \<open>influxdb.UserUpdate\<close> and
  \<open>influxdb.FindOptions\<close> are declared outside the file. The record is
  "identifier, name, status", the patch "optional new name and/or new status" (a Go
  pointer, here an option), the pagination options \<open>{limit: int, offset: int}\<close>.
\<close>

record User =
  ID :: ID
  Name :: string
  Status :: Status

record UserUpdate =
  upd_Name :: "string option"
  upd_Status :: "Status option"

record FindOptions =
  Limit :: int
  Offset :: int

text \<open>
  Modelled from the spec: the error values and constructors of packages tenant and kv
  are declared outside the file; the spec lists them as distinct error kinds. The
  constructors with an argument wrap their cause, as
  \<open>ErrInternalServiceError(err)\<close> does; \<open>Failure\<close> stands for any other error value a
  collaborator hands back, told apart by its message.
\<close>

datatype error =
    ErrKeyNotFound
  | NotUniqueError
  | ErrUserNotFound
  | ErrCorruptUser error
  | ErrUnprocessableUser error
  | InvalidUserIDError error
  | ErrInternalServiceError error
  | ErrCorruptID error
  | Failure string

subsection \<open>Collaborators\<close>

text \<open>
  The identifier codec (\<open>id.Encode\<close>, \<open>id.Decode\<close>), the JSON codec of the record and the
  two page-size constants of package influxdb are not part of the file: they are
  parameters of the model.
\<close>

record env =
  id_Encode :: "ID \<Rightarrow> error + bytes"
  id_Decode :: "bytes \<Rightarrow> error + ID"
  json_Marshal :: "User \<Rightarrow> error + bytes"
  json_Unmarshal :: "bytes \<Rightarrow> error + User"
  DefaultPageSize :: int
  MaxPageSize :: int

text \<open>
  Modelled from the spec: the transactional key-value collaborator (package kv) is not
  part of the file. Its contract is: open a named bucket; point get, put and delete by
  byte key, where get answers a value, the not-found signal or another error; a forward
  cursor over a bucket's entries in ascending key order with \<open>Next\<close>, which answers
  \<open>nil\<close> at the end, and \<open>Err\<close>.

  A transaction holds the entries of each bucket as an association list and a script of
  injected failures: every call of the collaborator takes the head of the script, fails
  with \<open>Failure msg\<close> when the head is \<open>Some msg\<close> and otherwise does its work (an
  empty script never fails). A failed call changes no bucket, and the not-found signal
  is only ever the answer to a key that is absent.
\<close>

record Tx =
  buckets :: "bytes \<Rightarrow> (bytes \<times> bytes) list"
  faults :: "string option list"

definition next_fault :: "Tx \<Rightarrow> string option \<times> Tx" where
  "next_fault tx =
     (case faults tx of
        [] \<Rightarrow> (None, tx)
      | f # fs \<Rightarrow> (f, tx\<lparr>faults := fs\<rparr>))"

text \<open>The transaction after one call of the collaborator: the script without its head.\<close>

definition tick :: "Tx \<Rightarrow> Tx" where
  "tick tx = tx\<lparr>faults := tl (faults tx)\<rparr>"

definition tx_Bucket :: "Tx \<Rightarrow> bytes \<Rightarrow> (error + bytes) \<times> Tx" where
  "tx_Bucket tx name =
     (case next_fault tx of
        (Some msg, tx') \<Rightarrow> (Inl (Failure msg), tx')
      | (None, tx') \<Rightarrow> (Inr name, tx'))"

definition bucket_Get :: "Tx \<Rightarrow> bytes \<Rightarrow> bytes \<Rightarrow> (error + bytes) \<times> Tx" where
  "bucket_Get tx b k =
     (case next_fault tx of
        (Some msg, tx') \<Rightarrow> (Inl (Failure msg), tx')
      | (None, tx') \<Rightarrow>
          (case map_of (buckets tx' b) k of
             None \<Rightarrow> (Inl ErrKeyNotFound, tx')
           | Some v \<Rightarrow> (Inr v, tx')))"

definition bucket_Put :: "Tx \<Rightarrow> bytes \<Rightarrow> bytes \<Rightarrow> bytes \<Rightarrow> error option \<times> Tx" where
  "bucket_Put tx b k v =
     (case next_fault tx of
        (Some msg, tx') \<Rightarrow> (Some (Failure msg), tx')
      | (None, tx') \<Rightarrow>
          (None, tx'\<lparr>buckets := (buckets tx')(b := AList.update k v (buckets tx' b))\<rparr>))"

definition bucket_Delete :: "Tx \<Rightarrow> bytes \<Rightarrow> bytes \<Rightarrow> error option \<times> Tx" where
  "bucket_Delete tx b k =
     (case next_fault tx of
        (Some msg, tx') \<Rightarrow> (Some (Failure msg), tx')
      | (None, tx') \<Rightarrow>
          (None, tx'\<lparr>buckets := (buckets tx')(b := AList.delete k (buckets tx' b))\<rparr>))"

text \<open>
  Modelled from the spec: \<open>kv.IsNotFound\<close> is declared outside the file; it holds of
  the collaborator's not-found signal.
\<close>

definition IsNotFound :: "error \<Rightarrow> bool" where
  "IsNotFound err = (err = ErrKeyNotFound)"

subsection \<open>The store\<close>

definition userBucket :: bytes where
  "userBucket = ''usersv1''"

definition userIndex :: bytes where
  "userIndex = ''userindexv1''"

definition unmarshalUser :: "env \<Rightarrow> bytes \<Rightarrow> error + User" where
  "unmarshalUser env v =
     (case json_Unmarshal env v of
        Inl err \<Rightarrow> Inl (ErrCorruptUser err)
      | Inr u \<Rightarrow> Inr u)"

definition marshalUser :: "env \<Rightarrow> User \<Rightarrow> error + bytes" where
  "marshalUser env u =
     (case json_Marshal env u of
        Inl err \<Rightarrow> Inl (ErrUnprocessableUser err)
      | Inr v \<Rightarrow> Inr v)"

definition uniqueUserName :: "Tx \<Rightarrow> string \<Rightarrow> error option \<times> Tx" where
  "uniqueUserName tx uname =
     (case tx_Bucket tx userIndex of
        (Inl err, tx1) \<Rightarrow> (Some err, tx1)
      | (Inr idx, tx1) \<Rightarrow>
          (case bucket_Get tx1 idx uname of
             (Inl err, tx2) \<Rightarrow>
               if IsNotFound err then (None, tx2)
               else (Some (ErrUnprocessableUser err), tx2)
           | (Inr _, tx2) \<Rightarrow> (Some NotUniqueError, tx2)))"

definition GetUser :: "env \<Rightarrow> Tx \<Rightarrow> ID \<Rightarrow> (error + User) \<times> Tx" where
  "GetUser env tx ident =
     (case id_Encode env ident of
        Inl err \<Rightarrow> (Inl (InvalidUserIDError err), tx)
      | Inr encodedID \<Rightarrow>
          (case tx_Bucket tx userBucket of
             (Inl err, tx1) \<Rightarrow> (Inl err, tx1)
           | (Inr b, tx1) \<Rightarrow>
               (case bucket_Get tx1 b encodedID of
                  (Inl err, tx2) \<Rightarrow>
                    if IsNotFound err then (Inl ErrUserNotFound, tx2)
                    else (Inl (ErrInternalServiceError err), tx2)
                | (Inr v, tx2) \<Rightarrow> (unmarshalUser env v, tx2))))"

definition GetUserByName :: "env \<Rightarrow> Tx \<Rightarrow> string \<Rightarrow> (error + User) \<times> Tx" where
  "GetUserByName env tx n =
     (case tx_Bucket tx userIndex of
        (Inl err, tx1) \<Rightarrow> (Inl err, tx1)
      | (Inr b, tx1) \<Rightarrow>
          (case bucket_Get tx1 b n of
             (Inl err, tx2) \<Rightarrow>
               if err = ErrKeyNotFound then (Inl ErrUserNotFound, tx2)
               else (Inl (ErrInternalServiceError err), tx2)
           | (Inr uid, tx2) \<Rightarrow>
               (case id_Decode env uid of
                  Inl err \<Rightarrow> (Inl (ErrCorruptID err), tx2)
                | Inr ident \<Rightarrow> GetUser env tx2 ident)))"

text \<open>
  Modelled from the spec: the forward cursor of package kv is declared outside the file.
  It walks the bucket's entries, one per key, in ascending key order (byte strings
  compare lexicographically, as \<open>bytes.Compare\<close> does).
\<close>

definition bucket_entries :: "Tx \<Rightarrow> bytes \<Rightarrow> (bytes \<times> bytes) list" where
  "bucket_entries tx b = sort_key fst (AList.clearjunk (buckets tx b))"

record cursor =
  pending :: "(bytes \<times> bytes) list"
  cursor_err :: "error option"

definition bucket_ForwardCursor :: "Tx \<Rightarrow> bytes \<Rightarrow> (error + cursor) \<times> Tx" where
  "bucket_ForwardCursor tx b =
     (case next_fault tx of
        (Some msg, tx') \<Rightarrow> (Inl (Failure msg), tx')
      | (None, tx') \<Rightarrow> (Inr \<lparr>pending = bucket_entries tx' b, cursor_err = None\<rparr>, tx'))"

text \<open>
  \<open>cursor.Next\<close>: the next entry, or \<open>None\<close> for the \<open>nil\<close> key at the end of the
  bucket or at a failure, which the cursor keeps for \<open>cursor.Err\<close>.
\<close>

definition cursor_Next :: "Tx \<Rightarrow> cursor \<Rightarrow> ((bytes \<times> bytes) option \<times> cursor) \<times> Tx" where
  "cursor_Next tx c =
     (case next_fault tx of
        (Some msg, tx') \<Rightarrow> ((None, c\<lparr>cursor_err := Some (Failure msg)\<rparr>), tx')
      | (None, tx') \<Rightarrow>
          (case pending c of
             [] \<Rightarrow> ((None, c), tx')
           | kv # rest \<Rightarrow> ((Some kv, c\<lparr>pending := rest\<rparr>), tx')))"

definition cursor_Err :: "cursor \<Rightarrow> error option" where
  "cursor_Err c = cursor_err c"

text \<open>
  The \<open>for\<close> loop of \<open>ListUsers\<close> (lines 126 to 141), with the loop variables \<open>count\<close>
  and \<open>us\<close> as arguments. \<open>count\<close> never exceeds the number of entries, so the Go
  \<open>int\<close> does not wrap.
\<close>

function ListUsers_loop ::
  "env \<Rightarrow> FindOptions \<Rightarrow> Tx \<Rightarrow> cursor \<Rightarrow> int \<Rightarrow> User list \<Rightarrow> User list \<times> cursor \<times> Tx" where
  "ListUsers_loop env opt tx c count us =
     (case cursor_Next tx c of
        ((None, c'), tx') \<Rightarrow> (us, c', tx')
      | ((Some (k, v), c'), tx') \<Rightarrow>
          if Offset opt \<noteq> 0 \<and> count < Offset opt
          then ListUsers_loop env opt tx' c' (count + 1) us
          else
            (case unmarshalUser env v of
               Inl err \<Rightarrow> ListUsers_loop env opt tx' c' count us
             | Inr u \<Rightarrow>
                 if int (length (us @ [u])) \<ge> Limit opt then (us @ [u], c', tx')
                 else ListUsers_loop env opt tx' c' count (us @ [u])))"
  by pat_completeness auto
termination
  by (relation "measure (\<lambda>(env, opt, tx, c, count, us). length (pending c))")
    (auto simp: cursor_Next_def split: prod.splits option.splits list.splits)

text \<open>
  \<open>find_options\<close> is the options \<open>o\<close> of \<open>ListUsers\<close> after lines 103 to 111: the
  default when no options are passed, the first options otherwise (\<open>opt[0]\<close>, which
  exists there), and the clamp of the limit. \<open>ListUsers\<close> answers a slice and an error
  together; the slice is \<open>None\<close> where the code returns \<open>nil\<close>. The deferred
  \<open>cursor.Close()\<close> has no result and no effect on the tables.
\<close>

definition find_options :: "env \<Rightarrow> FindOptions list \<Rightarrow> FindOptions" where
  "find_options env opt =
     (let opt1 = (if length opt = 0
                  then opt @ [\<lparr>Limit = DefaultPageSize env, Offset = 0\<rparr>] else opt);
          o0 = (case opt1 of x # _ \<Rightarrow> x
                | [] \<Rightarrow> \<lparr>Limit = DefaultPageSize env, Offset = 0\<rparr>)
      in if Limit o0 > MaxPageSize env \<or> Limit o0 = 0
         then o0\<lparr>Limit := MaxPageSize env\<rparr> else o0)"

definition ListUsers ::
  "env \<Rightarrow> Tx \<Rightarrow> FindOptions list \<Rightarrow> (User list option \<times> error option) \<times> Tx" where
  "ListUsers env tx opt =
     (let o1 = find_options env opt in
        case tx_Bucket tx userBucket of
          (Inl err, tx1) \<Rightarrow> ((None, Some err), tx1)
        | (Inr b, tx1) \<Rightarrow>
            (case bucket_ForwardCursor tx1 b of
               (Inl err, tx2) \<Rightarrow> ((None, Some err), tx2)
             | (Inr cursor, tx2) \<Rightarrow>
                 (case ListUsers_loop env o1 tx2 cursor 0 [] of
                    (us, c', tx3) \<Rightarrow> ((Some us, cursor_Err c'), tx3))))"

definition CreateUser :: "env \<Rightarrow> Tx \<Rightarrow> User \<Rightarrow> error option \<times> Tx" where
  "CreateUser env tx u =
     (case id_Encode env (ID u) of
        Inl err \<Rightarrow> (Some (InvalidUserIDError err), tx)
      | Inr encodedID \<Rightarrow>
     (case uniqueUserName tx (Name u) of
        (Some err, tx1) \<Rightarrow> (Some err, tx1)
      | (None, tx1) \<Rightarrow>
     (case tx_Bucket tx1 userIndex of
        (Inl err, tx2) \<Rightarrow> (Some err, tx2)
      | (Inr idx, tx2) \<Rightarrow>
     (case tx_Bucket tx2 userBucket of
        (Inl err, tx3) \<Rightarrow> (Some err, tx3)
      | (Inr b, tx3) \<Rightarrow>
     (case marshalUser env u of
        Inl err \<Rightarrow> (Some err, tx3)
      | Inr v \<Rightarrow>
     (case bucket_Put tx3 idx (Name u) encodedID of
        (Some err, tx4) \<Rightarrow> (Some (ErrInternalServiceError err), tx4)
      | (None, tx4) \<Rightarrow>
     (case bucket_Put tx4 b encodedID v of
        (Some err, tx5) \<Rightarrow> (Some (ErrInternalServiceError err), tx5)
      | (None, tx5) \<Rightarrow> (None, tx5))))))))"

text \<open>
  The block \<open>if upd.Name != nil { ... }\<close> of \<open>UpdateUser\<close> (lines 193 to 212) for the
  new name \<open>name\<close>: it answers the record with its name changed, or the error the
  block returns.
\<close>

definition UpdateUser_name ::
  "Tx \<Rightarrow> bytes \<Rightarrow> User \<Rightarrow> string \<Rightarrow> (error + User) \<times> Tx" where
  "UpdateUser_name tx encodedID u name =
     (case uniqueUserName tx name of
        (Some err, tx1) \<Rightarrow> (Inl err, tx1)
      | (None, tx1) \<Rightarrow>
     (case tx_Bucket tx1 userIndex of
        (Inl err, tx2) \<Rightarrow> (Inl err, tx2)
      | (Inr idx, tx2) \<Rightarrow>
     (case bucket_Delete tx2 idx (Name u) of
        (Some err, tx3) \<Rightarrow> (Inl (ErrInternalServiceError err), tx3)
      | (None, tx3) \<Rightarrow>
     (case bucket_Put tx3 idx (Name (u\<lparr>Name := name\<rparr>)) encodedID of
        (Some err, tx4) \<Rightarrow> (Inl (ErrInternalServiceError err), tx4)
      | (None, tx4) \<Rightarrow> (Inr (u\<lparr>Name := name\<rparr>), tx4)))))"

definition UpdateUser :: "env \<Rightarrow> Tx \<Rightarrow> ID \<Rightarrow> UserUpdate \<Rightarrow> (error + User) \<times> Tx" where
  "UpdateUser env tx ident upd =
     (case id_Encode env ident of
        Inl err \<Rightarrow> (Inl err, tx)
      | Inr encodedID \<Rightarrow>
     (case GetUser env tx ident of
        (Inl err, tx1) \<Rightarrow> (Inl err, tx1)
      | (Inr u, tx1) \<Rightarrow>
     (case (case upd_Name upd of
              None \<Rightarrow> (Inr u, tx1)
            | Some name \<Rightarrow> UpdateUser_name tx1 encodedID u name) of
        (Inl err, tx2) \<Rightarrow> (Inl err, tx2)
      | (Inr u1, tx2) \<Rightarrow>
     (let u2 = (case upd_Status upd of None \<Rightarrow> u1 | Some st \<Rightarrow> u1\<lparr>Status := st\<rparr>) in
     (case marshalUser env u2 of
        Inl err \<Rightarrow> (Inl err, tx2)
      | Inr v \<Rightarrow>
     (case tx_Bucket tx2 userBucket of
        (Inl err, tx3) \<Rightarrow> (Inl err, tx3)
      | (Inr b, tx3) \<Rightarrow>
     (case bucket_Put tx3 b encodedID v of
        (Some err, tx4) \<Rightarrow> (Inl (ErrInternalServiceError err), tx4)
      | (None, tx4) \<Rightarrow> (Inr u2, tx4))))))))"

definition DeleteUser :: "env \<Rightarrow> Tx \<Rightarrow> ID \<Rightarrow> error option \<times> Tx" where
  "DeleteUser env tx ident =
     (case GetUser env tx ident of
        (Inl err, tx1) \<Rightarrow> (Some err, tx1)
      | (Inr u, tx1) \<Rightarrow>
     (case id_Encode env ident of
        Inl err \<Rightarrow> (Some (InvalidUserIDError err), tx1)
      | Inr encodedID \<Rightarrow>
     (case tx_Bucket tx1 userIndex of
        (Inl err, tx2) \<Rightarrow> (Some err, tx2)
      | (Inr idx, tx2) \<Rightarrow>
     (case bucket_Delete tx2 idx (Name u) of
        (Some err, tx3) \<Rightarrow> (Some (ErrInternalServiceError err), tx3)
      | (None, tx3) \<Rightarrow>
     (case tx_Bucket tx3 userBucket of
        (Inl err, tx4) \<Rightarrow> (Some err, tx4)
      | (Inr b, tx4) \<Rightarrow>
     (case bucket_Delete tx4 b encodedID of
        (Some err, tx5) \<Rightarrow> (Some (ErrInternalServiceError err), tx5)
      | (None, tx5) \<Rightarrow> (None, tx5)))))))"

subsection \<open>Tables, invariants and runs\<close>

text \<open>A transaction into which no further failure is injected.\<close>

definition quiet :: "Tx \<Rightarrow> bool" where
  "quiet tx = list_all (\<lambda>f. f = None) (faults tx)"

text \<open>The records among some entries whose value decodes, in the entries' order.\<close>

definition decodable :: "env \<Rightarrow> (bytes \<times> bytes) list \<Rightarrow> User list" where
  "decodable env kvs =
     List.map_filter
       (\<lambda>kv. case unmarshalUser env (snd kv) of Inl _ \<Rightarrow> None | Inr u \<Rightarrow> Some u) kvs"

text \<open>
  The (name, encoded id) pairs of the index, and the (name, encoded id) pairs obtained
  from the primary table by decoding the value under each key. Invariant I1 says the
  two sets are equal.
\<close>

definition index_pairs :: "Tx \<Rightarrow> (string \<times> bytes) set" where
  "index_pairs tx = set (AList.clearjunk (buckets tx userIndex))"

definition primary_pairs :: "env \<Rightarrow> Tx \<Rightarrow> (string \<times> bytes) set" where
  "primary_pairs env tx =
     set (List.map_filter
            (\<lambda>kv. case unmarshalUser env (snd kv) of
                     Inl _ \<Rightarrow> None
                   | Inr u \<Rightarrow> Some (Name u, fst kv))
            (AList.clearjunk (buckets tx userBucket)))"

definition I1 :: "env \<Rightarrow> Tx \<Rightarrow> bool" where
  "I1 env tx = (index_pairs tx = primary_pairs env tx)"

text \<open>The name of the record a key of the primary table holds, when its value decodes.\<close>

definition record_name :: "env \<Rightarrow> Tx \<Rightarrow> bytes \<Rightarrow> string option" where
  "record_name env tx k =
     (case map_of (buckets tx userBucket) k of
        None \<Rightarrow> None
      | Some v \<Rightarrow> (case unmarshalUser env v of Inl _ \<Rightarrow> None | Inr u \<Rightarrow> Some (Name u)))"

text \<open>The record \<open>u\<close> is stored under the identifier \<open>i\<close>.\<close>

definition stored :: "env \<Rightarrow> Tx \<Rightarrow> ID \<Rightarrow> User \<Rightarrow> bool" where
  "stored env tx i u =
     (case id_Encode env i of
        Inl _ \<Rightarrow> False
      | Inr encodedID \<Rightarrow>
          (case map_of (buckets tx userBucket) encodedID of
             None \<Rightarrow> False
           | Some v \<Rightarrow> unmarshalUser env v = Inr u))"

text \<open>
  A valid record: it serializes and decodes to itself, and its identifier encodes and
  decodes to itself.
\<close>

definition valid_record :: "env \<Rightarrow> User \<Rightarrow> bool" where
  "valid_record env u =
     ((case json_Marshal env u of
         Inl _ \<Rightarrow> False
       | Inr v \<Rightarrow> json_Unmarshal env v = Inr u) \<and>
      (case id_Encode env (ID u) of
         Inl _ \<Rightarrow> False
       | Inr b \<Rightarrow> id_Decode env b = Inr (ID u)))"

text \<open>The half of I1 the uniqueness check relies on: every record's name is indexed.\<close>

definition indexed :: "env \<Rightarrow> Tx \<Rightarrow> bool" where
  "indexed env tx = (primary_pairs env tx \<subseteq> index_pairs tx)"

text \<open>
  The contract of the two codecs: what was serialized decodes to the record it came
  from, and an encoded identifier decodes to the identifier.
\<close>

definition codec_ok :: "env \<Rightarrow> bool" where
  "codec_ok env =
     ((\<forall>u v. json_Marshal env u = Inr v \<longrightarrow> json_Unmarshal env v = Inr u) \<and>
      (\<forall>i b. id_Encode env i = Inr b \<longrightarrow> id_Decode env b = Inr i))"

text \<open>Sequences of mutating operations; a run stops at the first one that fails.\<close>

datatype op = Create User | Update ID UserUpdate | Delete ID

fun apply_op :: "env \<Rightarrow> Tx \<Rightarrow> op \<Rightarrow> error option \<times> Tx" where
  "apply_op env tx (Create u) = CreateUser env tx u"
| "apply_op env tx (Update i upd) =
     (case UpdateUser env tx i upd of
        (Inl err, tx') \<Rightarrow> (Some err, tx')
      | (Inr _, tx') \<Rightarrow> (None, tx'))"
| "apply_op env tx (Delete i) = DeleteUser env tx i"

fun run :: "env \<Rightarrow> Tx \<Rightarrow> op list \<Rightarrow> Tx option" where
  "run env tx [] = Some tx"
| "run env tx (x # xs) =
     (case apply_op env tx x of
        (None, tx') \<Rightarrow> run env tx' xs
      | (Some _, _) \<Rightarrow> None)"

text \<open>The identifier has no entry in the primary table.\<close>

definition id_absent :: "env \<Rightarrow> Tx \<Rightarrow> ID \<Rightarrow> bool" where
  "id_absent env tx i =
     (case id_Encode env i of
        Inl _ \<Rightarrow> True
      | Inr encodedID \<Rightarrow> map_of (buckets tx userBucket) encodedID = None)"

text \<open>Every \<open>Create\<close> of the run finds its identifier absent when it is applied.\<close>

fun creates_fresh :: "env \<Rightarrow> Tx \<Rightarrow> op list \<Rightarrow> bool" where
  "creates_fresh env tx [] = True"
| "creates_fresh env tx (x # xs) =
     ((case x of Create u \<Rightarrow> id_absent env tx (ID u) | _ \<Rightarrow> True) \<and>
      (case apply_op env tx x of
         (None, tx') \<Rightarrow> creates_fresh env tx' xs
       | (Some _, _) \<Rightarrow> True))"

subsection \<open>A sample instance of the collaborators\<close>

text \<open>
  The identifier codec writes a non-zero identifier as sixteen lower-case hexadecimal
  digits and refuses zero; the record codec writes a status letter, the identifier's
  sixteen digits and the name. The page sizes are 20 and 100. The instance serves to
  evaluate the store on concrete inputs.
\<close>

definition hex_digits :: string where
  "hex_digits = ''0123456789abcdef''"

fun hex_enc :: "nat \<Rightarrow> nat \<Rightarrow> string" where
  "hex_enc 0 n = []"
| "hex_enc (Suc w) n = hex_enc w (n div 16) @ [hex_digits ! (n mod 16)]"

fun hex_dec :: "nat \<Rightarrow> string \<Rightarrow> nat option" where
  "hex_dec a [] = Some a"
| "hex_dec a (c # cs) =
     (case map_of (zip hex_digits [0..<16]) c of
        None \<Rightarrow> None
      | Some d \<Rightarrow> hex_dec (16 * a + d) cs)"

definition sample_Encode :: "ID \<Rightarrow> error + bytes" where
  "sample_Encode i =
     (if i = 0 then Inl (Failure ''invalid ID'') else Inr (hex_enc 16 (unat i)))"

definition sample_Decode :: "bytes \<Rightarrow> error + ID" where
  "sample_Decode b =
     (if length b \<noteq> 16 then Inl (Failure ''input must be an array of 16 bytes'')
      else case hex_dec 0 b of
             None \<Rightarrow> Inl (Failure ''invalid ID'')
           | Some n \<Rightarrow> if n = 0 then Inl (Failure ''invalid ID'') else Inr (of_nat n))"

definition sample_Marshal :: "User \<Rightarrow> error + bytes" where
  "sample_Marshal u =
     Inr ((case Status u of Active \<Rightarrow> CHR ''A'' | Inactive \<Rightarrow> CHR ''I'')
          # hex_enc 16 (unat (ID u)) @ Name u)"

definition sample_Unmarshal :: "bytes \<Rightarrow> error + User" where
  "sample_Unmarshal b =
     (case b of
        [] \<Rightarrow> Inl (Failure ''unexpected end of input'')
      | c # rest \<Rightarrow>
          if (c \<noteq> CHR ''A'' \<and> c \<noteq> CHR ''I'') \<or> length rest < 16
          then Inl (Failure ''invalid record'')
          else case hex_dec 0 (take 16 rest) of
                 None \<Rightarrow> Inl (Failure ''invalid record'')
               | Some n \<Rightarrow>
                   Inr \<lparr>ID = of_nat n, Name = drop 16 rest,
                        Status = (if c = CHR ''A'' then Active else Inactive)\<rparr>)"

definition sample_env :: env where
  "sample_env =
     \<lparr>id_Encode = sample_Encode, id_Decode = sample_Decode,
      json_Marshal = sample_Marshal, json_Unmarshal = sample_Unmarshal,
      DefaultPageSize = 20, MaxPageSize = 100\<rparr>"

definition empty_tx :: Tx where
  "empty_tx = \<lparr>buckets = (\<lambda>_. []), faults = []\<rparr>"

text \<open>The store that holds \<open>alice\<close> and \<open>bob\<close>.\<close>

definition users_tx :: Tx where
  "users_tx =
     \<lparr>buckets =
        (\<lambda>b. if b = userIndex
             then [(''alice'', ''0000000000000001''), (''bob'', ''0000000000000002'')]
             else if b = userBucket
             then [(''0000000000000001'', ''A0000000000000001alice''),
                   (''0000000000000002'', ''A0000000000000002bob'')]
             else []),
      faults = []\<rparr>"

text \<open>A store of twenty-one users, one more than the default page size.\<close>

definition many_tx :: Tx where
  "many_tx =
     \<lparr>buckets =
        (\<lambda>b. if b = userIndex
             then [(''user01'', ''0000000000000001''),
              (''user02'', ''0000000000000002''),
              (''user03'', ''0000000000000003''),
              (''user04'', ''0000000000000004''),
              (''user05'', ''0000000000000005''),
              (''user06'', ''0000000000000006''),
              (''user07'', ''0000000000000007''),
              (''user08'', ''0000000000000008''),
              (''user09'', ''0000000000000009''),
              (''user0a'', ''000000000000000a''),
              (''user0b'', ''000000000000000b''),
              (''user0c'', ''000000000000000c''),
              (''user0d'', ''000000000000000d''),
              (''user0e'', ''000000000000000e''),
              (''user0f'', ''000000000000000f''),
              (''user10'', ''0000000000000010''),
              (''user11'', ''0000000000000011''),
              (''user12'', ''0000000000000012''),
              (''user13'', ''0000000000000013''),
              (''user14'', ''0000000000000014''),
              (''user15'', ''0000000000000015'')]
             else if b = userBucket
             then [(''0000000000000001'', ''A0000000000000001user01''),
              (''0000000000000002'', ''A0000000000000002user02''),
              (''0000000000000003'', ''A0000000000000003user03''),
              (''0000000000000004'', ''A0000000000000004user04''),
              (''0000000000000005'', ''A0000000000000005user05''),
              (''0000000000000006'', ''A0000000000000006user06''),
              (''0000000000000007'', ''A0000000000000007user07''),
              (''0000000000000008'', ''A0000000000000008user08''),
              (''0000000000000009'', ''A0000000000000009user09''),
              (''000000000000000a'', ''A000000000000000auser0a''),
              (''000000000000000b'', ''A000000000000000buser0b''),
              (''000000000000000c'', ''A000000000000000cuser0c''),
              (''000000000000000d'', ''A000000000000000duser0d''),
              (''000000000000000e'', ''A000000000000000euser0e''),
              (''000000000000000f'', ''A000000000000000fuser0f''),
              (''0000000000000010'', ''A0000000000000010user10''),
              (''0000000000000011'', ''A0000000000000011user11''),
              (''0000000000000012'', ''A0000000000000012user12''),
              (''0000000000000013'', ''A0000000000000013user13''),
              (''0000000000000014'', ''A0000000000000014user14''),
              (''0000000000000015'', ''A0000000000000015user15'')]
             else []),
      faults = []\<rparr>"

text \<open>
  A store whose second primary entry does not decode, in a transaction whose sixth
  collaborator call fails: the bucket, the cursor and three entries are read before.
\<close>

definition corrupt_tx :: Tx where
  "corrupt_tx =
     \<lparr>buckets =
        (\<lambda>b. if b = userIndex
             then [(''alice'', ''0000000000000001''), (''carol'', ''0000000000000003'')]
             else if b = userBucket
             then [(''0000000000000003'', ''I0000000000000003carol''),
                   (''0000000000000002'', ''garbage''),
                   (''0000000000000001'', ''A0000000000000001alice'')]
             else []),
      faults = [None, None, None, None, None, Some ''i/o timeout'']\<rparr>"

definition carol :: User where
  "carol = \<lparr>ID = 3, Name = ''carol'', Status = Inactive\<rparr>"

definition alice :: User where
  "alice = \<lparr>ID = 1, Name = ''alice'', Status = Active\<rparr>"

definition bob :: User where
  "bob = \<lparr>ID = 2, Name = ''bob'', Status = Active\<rparr>"

section \<open>Properties\<close>

subsection \<open>The collaborator calls\<close>

lemma userBucket_neq [simp]: "userBucket \<noteq> userIndex" "userIndex \<noteq> userBucket"
  by (simp_all add: userBucket_def userIndex_def)

lemma next_fault_buckets: "next_fault tx = (r, tx') \<Longrightarrow> buckets tx' = buckets tx"
  by (auto simp: next_fault_def split: list.splits)

lemma tx_Bucket_Inr: "tx_Bucket tx n = (Inr b, tx') \<Longrightarrow> b = n \<and> buckets tx' = buckets tx"
  by (auto simp: tx_Bucket_def split: prod.splits option.splits dest: next_fault_buckets)

lemma tx_Bucket_Inl: "tx_Bucket tx n = (Inl e, tx') \<Longrightarrow> buckets tx' = buckets tx"
  by (auto simp: tx_Bucket_def split: prod.splits option.splits dest: next_fault_buckets)

lemma bucket_Get_Inr:
  "bucket_Get tx b k = (Inr v, tx') \<Longrightarrow>
     map_of (buckets tx b) k = Some v \<and> buckets tx' = buckets tx"
  by (auto simp: bucket_Get_def split: prod.splits option.splits dest: next_fault_buckets)

lemma bucket_Get_Inl:
  "bucket_Get tx b k = (Inl e, tx') \<Longrightarrow>
     buckets tx' = buckets tx \<and>
     ((e = ErrKeyNotFound \<and> map_of (buckets tx b) k = None) \<or> (\<exists>msg. e = Failure msg))"
  by (auto simp: bucket_Get_def split: prod.splits option.splits dest: next_fault_buckets)

lemma bucket_Put_None:
  "bucket_Put tx b k v = (None, tx') \<Longrightarrow>
     buckets tx' = (buckets tx)(b := AList.update k v (buckets tx b))"
  by (auto simp: bucket_Put_def split: prod.splits option.splits dest: next_fault_buckets)

lemma bucket_Delete_None:
  "bucket_Delete tx b k = (None, tx') \<Longrightarrow>
     buckets tx' = (buckets tx)(b := AList.delete k (buckets tx b))"
  by (auto simp: bucket_Delete_def split: prod.splits option.splits dest: next_fault_buckets)

lemma bucket_Put_Some:
  "bucket_Put tx b k v = (Some e, tx') \<Longrightarrow> buckets tx' = buckets tx"
  by (auto simp: bucket_Put_def split: prod.splits option.splits dest: next_fault_buckets)

lemma bucket_Delete_Some:
  "bucket_Delete tx b k = (Some e, tx') \<Longrightarrow> buckets tx' = buckets tx"
  by (auto simp: bucket_Delete_def split: prod.splits option.splits dest: next_fault_buckets)

subsection \<open>What a successful operation did\<close>

lemma uniqueUserName_Some: "uniqueUserName tx n = (Some e, tx') \<Longrightarrow> buckets tx' = buckets tx"
  by (auto simp: uniqueUserName_def split: prod.splits sum.splits if_splits
      dest!: tx_Bucket_Inr tx_Bucket_Inl bucket_Get_Inr bucket_Get_Inl)

lemma uniqueUserName_None:
  "uniqueUserName tx n = (None, tx') \<Longrightarrow>
     map_of (buckets tx userIndex) n = None \<and> buckets tx' = buckets tx"
  by (auto simp: uniqueUserName_def IsNotFound_def split: prod.splits sum.splits if_splits
      dest!: tx_Bucket_Inr tx_Bucket_Inl bucket_Get_Inr bucket_Get_Inl)

lemma GetUser_Inl: "GetUser env tx i = (Inl e, tx') \<Longrightarrow> buckets tx' = buckets tx"
  by (auto simp: GetUser_def split: prod.splits sum.splits if_splits
      dest!: tx_Bucket_Inr tx_Bucket_Inl bucket_Get_Inr bucket_Get_Inl)

lemma GetUser_Inr:
  "GetUser env tx i = (Inr u, tx') \<Longrightarrow>
     (\<exists>eid v. id_Encode env i = Inr eid \<and> map_of (buckets tx userBucket) eid = Some v \<and>
       unmarshalUser env v = Inr u) \<and> buckets tx' = buckets tx"
  by (auto simp: GetUser_def split: prod.splits sum.splits if_splits
      dest!: tx_Bucket_Inr tx_Bucket_Inl bucket_Get_Inr bucket_Get_Inl)

lemma CreateUser_None:
  "CreateUser env tx u = (None, tx') \<Longrightarrow>
     \<exists>eid v. id_Encode env (ID u) = Inr eid \<and> json_Marshal env u = Inr v \<and>
       map_of (buckets tx userIndex) (Name u) = None \<and>
       buckets tx' = (buckets tx)
         (userIndex := AList.update (Name u) eid (buckets tx userIndex),
          userBucket := AList.update eid v (buckets tx userBucket))"
  by (auto simp: CreateUser_def marshalUser_def split: prod.splits sum.splits option.splits
      dest!: tx_Bucket_Inr uniqueUserName_None bucket_Put_None)

lemma UpdateUser_name_Inr:
  "UpdateUser_name tx eid u name = (Inr u', tx') \<Longrightarrow>
     u' = u\<lparr>Name := name\<rparr> \<and> map_of (buckets tx userIndex) name = None \<and>
     buckets tx' = (buckets tx)
       (userIndex := AList.update name eid (AList.delete (Name u) (buckets tx userIndex)))"
  by (auto simp: UpdateUser_name_def split: prod.splits sum.splits option.splits
      dest!: tx_Bucket_Inr uniqueUserName_None bucket_Put_None bucket_Delete_None)

lemma UpdateUser_Inr:
  "UpdateUser env tx i upd = (Inr u2, tx') \<Longrightarrow>
     \<exists>eid v u v2. id_Encode env i = Inr eid \<and> map_of (buckets tx userBucket) eid = Some v \<and>
       unmarshalUser env v = Inr u \<and> json_Marshal env u2 = Inr v2 \<and>
       (case upd_Name upd of
          None \<Rightarrow> Name u2 = Name u \<and>
            buckets tx' = (buckets tx)(userBucket := AList.update eid v2 (buckets tx userBucket))
        | Some name \<Rightarrow> Name u2 = name \<and> map_of (buckets tx userIndex) name = None \<and>
            buckets tx' = (buckets tx)
              (userIndex := AList.update name eid (AList.delete (Name u) (buckets tx userIndex)),
               userBucket := AList.update eid v2 (buckets tx userBucket)))"
  by (auto simp: UpdateUser_def marshalUser_def Let_def split: prod.splits sum.splits option.splits
      dest!: tx_Bucket_Inr GetUser_Inr UpdateUser_name_Inr bucket_Put_None)

lemma DeleteUser_None:
  "DeleteUser env tx i = (None, tx') \<Longrightarrow>
     \<exists>eid v u. id_Encode env i = Inr eid \<and> map_of (buckets tx userBucket) eid = Some v \<and>
       unmarshalUser env v = Inr u \<and>
       buckets tx' = (buckets tx)
         (userIndex := AList.delete (Name u) (buckets tx userIndex),
          userBucket := AList.delete eid (buckets tx userBucket))"
  by (auto simp: DeleteUser_def split: prod.splits sum.splits option.splits
      dest!: tx_Bucket_Inr GetUser_Inr bucket_Delete_None)

subsection \<open>The invariants on two maps\<close>

lemma index_pairs_iff:
  "(n, k) \<in> index_pairs tx \<longleftrightarrow> map_of (buckets tx userIndex) n = Some k"
proof -
  have "distinct (map fst (AList.clearjunk (buckets tx userIndex)))"
    by (rule AList.distinct_clearjunk)
  then have "(n, k) \<in> set (AList.clearjunk (buckets tx userIndex)) \<longleftrightarrow>
      map_of (AList.clearjunk (buckets tx userIndex)) n = Some k"
    by simp
  then show ?thesis
    by (simp add: index_pairs_def AList.map_of_clearjunk)
qed

lemma in_set_map_filter:
  "y \<in> set (List.map_filter f xs) \<longleftrightarrow> (\<exists>x \<in> set xs. f x = Some y)"
  by (induction xs) (auto split: option.splits)

lemma decode_pair_Some:
  "(case unmarshalUser env v of Inl _ \<Rightarrow> None | Inr u \<Rightarrow> Some (Name u, k')) = Some (n, k) \<longleftrightarrow>
     (case unmarshalUser env v of Inl _ \<Rightarrow> None | Inr u \<Rightarrow> Some (Name u)) = Some n \<and> k' = k"
  by (cases "unmarshalUser env v") auto

lemma primary_pairs_iff:
  "(n, k) \<in> primary_pairs env tx \<longleftrightarrow> record_name env tx k = Some n"
proof -
  have d: "distinct (map fst (AList.clearjunk (buckets tx userBucket)))"
    by (rule AList.distinct_clearjunk)
  have m: "\<And>v. (k, v) \<in> set (AList.clearjunk (buckets tx userBucket)) \<longleftrightarrow>
      map_of (buckets tx userBucket) k = Some v"
    using map_of_eq_Some_iff [OF d] by (simp add: AList.map_of_clearjunk)
  have "(n, k) \<in> primary_pairs env tx \<longleftrightarrow>
      (\<exists>v. (k, v) \<in> set (AList.clearjunk (buckets tx userBucket)) \<and>
         (case unmarshalUser env v of Inl _ \<Rightarrow> None | Inr u \<Rightarrow> Some (Name u)) = Some n)"
    unfolding primary_pairs_def in_set_map_filter
    by (force simp: decode_pair_Some)
  then show ?thesis
    by (auto simp: m record_name_def split: option.splits)
qed

lemma I1_iff:
  "I1 env tx \<longleftrightarrow>
     (\<forall>n k. map_of (buckets tx userIndex) n = Some k \<longleftrightarrow> record_name env tx k = Some n)"
  unfolding I1_def set_eq_iff
  by (simp add: split_paired_all index_pairs_iff primary_pairs_iff)

lemma indexed_iff:
  "indexed env tx \<longleftrightarrow>
     (\<forall>n k. record_name env tx k = Some n \<longrightarrow> map_of (buckets tx userIndex) n = Some k)"
  unfolding indexed_def subset_iff
  by (simp add: split_paired_all index_pairs_iff primary_pairs_iff)

lemma codec_unmarshal:
  "codec_ok env \<Longrightarrow> json_Marshal env u = Inr v \<Longrightarrow> unmarshalUser env v = Inr u"
  by (simp add: codec_ok_def unmarshalUser_def)

lemma record_name_stored:
  "map_of (buckets tx userBucket) k = Some v \<Longrightarrow> unmarshalUser env v = Inr u \<Longrightarrow>
     record_name env tx k = Some (Name u)"
  by (simp add: record_name_def)

lemma record_name_update:
  "buckets tx' userBucket = AList.update eid v (buckets tx userBucket) \<Longrightarrow>
     unmarshalUser env v = Inr u \<Longrightarrow>
     record_name env tx' k = (if k = eid then Some (Name u) else record_name env tx k)"
  by (simp add: record_name_def AList.update_conv')

lemma record_name_delete:
  "buckets tx' userBucket = AList.delete eid (buckets tx userBucket) \<Longrightarrow>
     record_name env tx' k = (if k = eid then None else record_name env tx k)"
  by (simp add: record_name_def AList.delete_conv')

subsection \<open>The operations keep I1\<close>

lemma CreateUser_I1:
  assumes ok: "codec_ok env" and inv: "I1 env tx" and fresh: "id_absent env tx (ID u)"
    and run: "CreateUser env tx u = (None, tx')"
  shows "I1 env tx'"
proof -
  from CreateUser_None [OF run] obtain eid v where
    e: "id_Encode env (ID u) = Inr eid" and m: "json_Marshal env u = Inr v" and
    free: "map_of (buckets tx userIndex) (Name u) = None" and
    b: "buckets tx' = (buckets tx)
         (userIndex := AList.update (Name u) eid (buckets tx userIndex),
          userBucket := AList.update eid v (buckets tx userBucket))"
    by blast
  from fresh e have absent: "record_name env tx eid = None"
    by (simp add: id_absent_def record_name_def)
  have dec: "unmarshalUser env v = Inr u"
    using ok m by (rule codec_unmarshal)
  have names: "record_name env tx' k = (if k = eid then Some (Name u) else record_name env tx k)"
    for k
    by (rule record_name_update [OF _ dec]) (simp add: b)
  have idx: "map_of (buckets tx' userIndex) n =
      (if n = Name u then Some eid else map_of (buckets tx userIndex) n)" for n
    by (simp add: b AList.update_conv')
  show ?thesis
    unfolding I1_iff names idx
    using inv free absent unfolding I1_iff
    by (metis option.distinct(1) option.inject)
qed

lemma UpdateUser_I1:
  assumes ok: "codec_ok env" and inv: "I1 env tx"
    and run: "UpdateUser env tx i upd = (Inr u2, tx')"
  shows "I1 env tx'"
proof -
  from UpdateUser_Inr [OF run] obtain eid v u v2 where
    e: "id_Encode env i = Inr eid" and old: "map_of (buckets tx userBucket) eid = Some v" and
    du: "unmarshalUser env v = Inr u" and m: "json_Marshal env u2 = Inr v2" and
    c: "case upd_Name upd of
          None \<Rightarrow> Name u2 = Name u \<and>
            buckets tx' = (buckets tx)(userBucket := AList.update eid v2 (buckets tx userBucket))
        | Some name \<Rightarrow> Name u2 = name \<and> map_of (buckets tx userIndex) name = None \<and>
            buckets tx' = (buckets tx)
              (userIndex := AList.update name eid (AList.delete (Name u) (buckets tx userIndex)),
               userBucket := AList.update eid v2 (buckets tx userBucket))"
    by blast
  have dec: "unmarshalUser env v2 = Inr u2"
    using ok m by (rule codec_unmarshal)
  have own: "record_name env tx eid = Some (Name u)"
    using old du by (rule record_name_stored)
  show ?thesis
  proof (cases "upd_Name upd")
    case None
    with c have n: "Name u2 = Name u" and
      b: "buckets tx' = (buckets tx)(userBucket := AList.update eid v2 (buckets tx userBucket))"
      by simp_all
    have names: "record_name env tx' k = (if k = eid then Some (Name u) else record_name env tx k)"
      for k
      using record_name_update [OF _ dec, of tx' eid tx k] by (simp add: b n)
    have idx: "map_of (buckets tx' userIndex) n = map_of (buckets tx userIndex) n" for n
      by (simp add: b)
    show ?thesis
      unfolding I1_iff names idx
      using inv own unfolding I1_iff
      by auto
  next
    case (Some name)
    with c have n: "Name u2 = name" and free: "map_of (buckets tx userIndex) name = None" and
      b: "buckets tx' = (buckets tx)
              (userIndex := AList.update name eid (AList.delete (Name u) (buckets tx userIndex)),
               userBucket := AList.update eid v2 (buckets tx userBucket))"
      by simp_all
    have names: "record_name env tx' k = (if k = eid then Some name else record_name env tx k)"
      for k
      using record_name_update [OF _ dec, of tx' eid tx k] by (simp add: b n)
    have idx: "map_of (buckets tx' userIndex) n =
        (if n = name then Some eid else if n = Name u then None
         else map_of (buckets tx userIndex) n)" for n
      by (simp add: b AList.update_conv' AList.delete_conv')
    show ?thesis
      unfolding I1_iff names idx
      using inv own free unfolding I1_iff
      by (metis option.distinct(1) option.inject)
  qed
qed

lemma DeleteUser_I1:
  assumes inv: "I1 env tx" and run: "DeleteUser env tx i = (None, tx')"
  shows "I1 env tx'"
proof -
  from DeleteUser_None [OF run] obtain eid v u where
    old: "map_of (buckets tx userBucket) eid = Some v" and
    du: "unmarshalUser env v = Inr u" and
    b: "buckets tx' = (buckets tx)
         (userIndex := AList.delete (Name u) (buckets tx userIndex),
          userBucket := AList.delete eid (buckets tx userBucket))"
    by blast
  have own: "record_name env tx eid = Some (Name u)"
    using old du by (rule record_name_stored)
  have names: "record_name env tx' k = (if k = eid then None else record_name env tx k)" for k
    by (rule record_name_delete) (simp add: b)
  have idx: "map_of (buckets tx' userIndex) n =
      (if n = Name u then None else map_of (buckets tx userIndex) n)" for n
    by (simp add: b AList.delete_conv')
  show ?thesis
    unfolding I1_iff names idx
    using inv own unfolding I1_iff
    by (metis option.distinct(1) option.inject)
qed

lemma apply_op_I1:
  "codec_ok env \<Longrightarrow> I1 env tx \<Longrightarrow> (case x of Create u \<Rightarrow> id_absent env tx (ID u) | _ \<Rightarrow> True) \<Longrightarrow>
     apply_op env tx x = (None, tx') \<Longrightarrow> I1 env tx'"
  by (cases x) (auto split: prod.splits sum.splits intro: CreateUser_I1 UpdateUser_I1 DeleteUser_I1)

lemma run_I1:
  "codec_ok env \<Longrightarrow> I1 env tx \<Longrightarrow> creates_fresh env tx ops \<Longrightarrow> run env tx ops = Some tx' \<Longrightarrow>
     I1 env tx'"
proof (induction ops arbitrary: tx)
  case Nil
  then show ?case by simp
next
  case (Cons x xs)
  from Cons.prems(4) obtain tx1 where
    s: "apply_op env tx x = (None, tx1)" and r: "run env tx1 xs = Some tx'"
    by (auto split: prod.splits option.splits)
  from Cons.prems(3) s have f: "case x of Create u \<Rightarrow> id_absent env tx (ID u) | _ \<Rightarrow> True"
    and fs: "creates_fresh env tx1 xs"
    by simp_all
  have "I1 env tx1"
    using Cons.prems(1,2) f s by (rule apply_op_I1)
  then show ?case
    using Cons.IH Cons.prems(1) fs r by blast
qed

subsection \<open>Every successful operation keeps the names indexed\<close>

lemma CreateUser_indexed:
  assumes ok: "codec_ok env" and inv: "indexed env tx"
    and run: "CreateUser env tx u = (None, tx')"
  shows "indexed env tx'"
proof -
  from CreateUser_None [OF run] obtain eid v where
    m: "json_Marshal env u = Inr v" and
    free: "map_of (buckets tx userIndex) (Name u) = None" and
    b: "buckets tx' = (buckets tx)
         (userIndex := AList.update (Name u) eid (buckets tx userIndex),
          userBucket := AList.update eid v (buckets tx userBucket))"
    by blast
  have dec: "unmarshalUser env v = Inr u"
    using ok m by (rule codec_unmarshal)
  have names: "record_name env tx' k = (if k = eid then Some (Name u) else record_name env tx k)"
    for k
    by (rule record_name_update [OF _ dec]) (simp add: b)
  have idx: "map_of (buckets tx' userIndex) n =
      (if n = Name u then Some eid else map_of (buckets tx userIndex) n)" for n
    by (simp add: b AList.update_conv')
  show ?thesis
    unfolding indexed_iff names idx
    using inv free unfolding indexed_iff
    by (metis option.distinct(1) option.inject)
qed

lemma UpdateUser_indexed:
  assumes ok: "codec_ok env" and inv: "indexed env tx"
    and run: "UpdateUser env tx i upd = (Inr u2, tx')"
  shows "indexed env tx'"
proof -
  from UpdateUser_Inr [OF run] obtain eid v u v2 where
    old: "map_of (buckets tx userBucket) eid = Some v" and
    du: "unmarshalUser env v = Inr u" and m: "json_Marshal env u2 = Inr v2" and
    c: "case upd_Name upd of
          None \<Rightarrow> Name u2 = Name u \<and>
            buckets tx' = (buckets tx)(userBucket := AList.update eid v2 (buckets tx userBucket))
        | Some name \<Rightarrow> Name u2 = name \<and> map_of (buckets tx userIndex) name = None \<and>
            buckets tx' = (buckets tx)
              (userIndex := AList.update name eid (AList.delete (Name u) (buckets tx userIndex)),
               userBucket := AList.update eid v2 (buckets tx userBucket))"
    by blast
  have dec: "unmarshalUser env v2 = Inr u2"
    using ok m by (rule codec_unmarshal)
  have own: "record_name env tx eid = Some (Name u)"
    using old du by (rule record_name_stored)
  show ?thesis
  proof (cases "upd_Name upd")
    case None
    with c have n: "Name u2 = Name u" and
      b: "buckets tx' = (buckets tx)(userBucket := AList.update eid v2 (buckets tx userBucket))"
      by simp_all
    have names: "record_name env tx' k = (if k = eid then Some (Name u) else record_name env tx k)"
      for k
      using record_name_update [OF _ dec, of tx' eid tx k] by (simp add: b n)
    have idx: "map_of (buckets tx' userIndex) n = map_of (buckets tx userIndex) n" for n
      by (simp add: b)
    show ?thesis
      unfolding indexed_iff names idx
      using inv own unfolding indexed_iff
      by auto
  next
    case (Some name)
    with c have n: "Name u2 = name" and free: "map_of (buckets tx userIndex) name = None" and
      b: "buckets tx' = (buckets tx)
              (userIndex := AList.update name eid (AList.delete (Name u) (buckets tx userIndex)),
               userBucket := AList.update eid v2 (buckets tx userBucket))"
      by simp_all
    have names: "record_name env tx' k = (if k = eid then Some name else record_name env tx k)"
      for k
      using record_name_update [OF _ dec, of tx' eid tx k] by (simp add: b n)
    have idx: "map_of (buckets tx' userIndex) n =
        (if n = name then Some eid else if n = Name u then None
         else map_of (buckets tx userIndex) n)" for n
      by (simp add: b AList.update_conv' AList.delete_conv')
    show ?thesis
      unfolding indexed_iff names idx
      using inv own free unfolding indexed_iff
      by (metis option.distinct(1) option.inject)
  qed
qed

lemma DeleteUser_indexed:
  assumes inv: "indexed env tx" and run: "DeleteUser env tx i = (None, tx')"
  shows "indexed env tx'"
proof -
  from DeleteUser_None [OF run] obtain eid v u where
    old: "map_of (buckets tx userBucket) eid = Some v" and
    du: "unmarshalUser env v = Inr u" and
    b: "buckets tx' = (buckets tx)
         (userIndex := AList.delete (Name u) (buckets tx userIndex),
          userBucket := AList.delete eid (buckets tx userBucket))"
    by blast
  have own: "record_name env tx eid = Some (Name u)"
    using old du by (rule record_name_stored)
  have names: "record_name env tx' k = (if k = eid then None else record_name env tx k)" for k
    by (rule record_name_delete) (simp add: b)
  have idx: "map_of (buckets tx' userIndex) n =
      (if n = Name u then None else map_of (buckets tx userIndex) n)" for n
    by (simp add: b AList.delete_conv')
  show ?thesis
    unfolding indexed_iff names idx
    using inv own unfolding indexed_iff
    by (metis option.distinct(1) option.inject)
qed

lemma apply_op_indexed:
  "codec_ok env \<Longrightarrow> indexed env tx \<Longrightarrow> apply_op env tx x = (None, tx') \<Longrightarrow> indexed env tx'"
  by (cases x)
    (auto split: prod.splits sum.splits
      intro: CreateUser_indexed UpdateUser_indexed DeleteUser_indexed)

lemma run_indexed:
  "codec_ok env \<Longrightarrow> indexed env tx \<Longrightarrow> run env tx ops = Some tx' \<Longrightarrow> indexed env tx'"
proof (induction ops arbitrary: tx)
  case Nil
  then show ?case by simp
next
  case (Cons x xs)
  from Cons.prems(3) obtain tx1 where
    s: "apply_op env tx x = (None, tx1)" and r: "run env tx1 xs = Some tx'"
    by (auto split: prod.splits option.splits)
  have "indexed env tx1"
    using Cons.prems(1,2) s by (rule apply_op_indexed)
  then show ?case
    using Cons.IH Cons.prems(1) r by blast
qed

lemma I1_indexed: "I1 env tx \<Longrightarrow> indexed env tx"
  by (simp add: I1_def indexed_def)

subsection \<open>The sample codecs keep their contract\<close>

lemma length_hex_enc: "length (hex_enc w n) = w"
  by (induction w arbitrary: n) auto

lemma hex_dec_snoc:
  "hex_dec a (xs @ [c]) =
     (case hex_dec a xs of
        None \<Rightarrow> None
      | Some m \<Rightarrow> (case map_of (zip hex_digits [0..<16]) c of
                     None \<Rightarrow> None
                   | Some d \<Rightarrow> Some (16 * m + d)))"
  by (induction xs arbitrary: a) (auto split: option.splits)

lemma hex_digit_value:
  assumes "d < 16"
  shows "map_of (zip hex_digits [0..<16]) (hex_digits ! d) = Some d"
proof -
  have "map_of (zip hex_digits [0..<16]) (hex_digits ! d) = Some ([0..<16] ! d)"
    using assms by (intro map_of_zip_nth) (simp_all add: hex_digits_def)
  then show ?thesis
    using assms by simp
qed

lemma hex_dec_enc: "hex_dec 0 (hex_enc w n) = Some (n mod 16 ^ w)"
proof (induction w arbitrary: n)
  case 0
  then show ?case by simp
next
  case (Suc w)
  have "n mod (16 * 16 ^ w) = 16 * (n div 16 mod 16 ^ w) + n mod 16"
    by (rule mod_mult2_eq)
  then show ?case
    by (simp add: hex_dec_snoc Suc.IH hex_digit_value)
qed

lemma hex_dec_enc_word: "hex_dec 0 (hex_enc 16 (unat (i :: 64 word))) = Some (unat i)"
proof -
  have "unat i < 2 ^ 64"
    using unsigned_less [of i] by simp
  then have "unat i mod 16 ^ 16 = unat i"
    by simp
  then show ?thesis
    by (simp add: hex_dec_enc)
qed

lemma sample_Unmarshal_Marshal:
  "sample_Marshal u = Inr v \<Longrightarrow> sample_Unmarshal v = Inr u"
  by (cases "Status u")
    (auto simp: sample_Marshal_def sample_Unmarshal_def length_hex_enc hex_dec_enc_word)

lemma sample_Decode_Encode:
  "sample_Encode i = Inr b \<Longrightarrow> sample_Decode b = Inr i"
  by (auto simp: sample_Encode_def sample_Decode_def length_hex_enc hex_dec_enc_word
      unat_eq_0 split: if_splits)

lemma codec_ok_sample: "codec_ok sample_env"
  by (simp add: codec_ok_def sample_env_def sample_Unmarshal_Marshal sample_Decode_Encode)

lemma I1_empty: "I1 env empty_tx"
  by (simp add: I1_def index_pairs_def primary_pairs_def empty_tx_def)


subsection \<open>The operations when no failure is injected\<close>

lemma next_fault_quiet: "quiet tx \<Longrightarrow> next_fault tx = (None, tick tx)"
  by (auto simp: next_fault_def quiet_def tick_def split: list.splits)

lemma quiet_tick [simp]: "quiet tx \<Longrightarrow> quiet (tick tx)"
  by (cases "faults tx") (auto simp: quiet_def tick_def)

lemma buckets_tick [simp]: "buckets (tick tx) = buckets tx"
  by (simp add: tick_def)

lemma quiet_buckets_update [simp]: "quiet (tx\<lparr>buckets := f\<rparr>) = quiet tx"
  by (simp add: quiet_def)

lemma tx_Bucket_quiet: "quiet tx \<Longrightarrow> tx_Bucket tx n = (Inr n, tick tx)"
  by (simp add: tx_Bucket_def next_fault_quiet)

lemma bucket_Get_quiet:
  "quiet tx \<Longrightarrow>
     bucket_Get tx b k =
       ((case map_of (buckets tx b) k of None \<Rightarrow> Inl ErrKeyNotFound | Some v \<Rightarrow> Inr v),
        tick tx)"
  by (simp add: bucket_Get_def next_fault_quiet split: option.splits)

lemma uniqueUserName_quiet:
  "quiet tx \<Longrightarrow>
     uniqueUserName tx n =
       ((case map_of (buckets tx userIndex) n of
           None \<Rightarrow> None
         | Some _ \<Rightarrow> Some NotUniqueError),
        tick (tick tx))"
  by (simp add: uniqueUserName_def tx_Bucket_quiet bucket_Get_quiet IsNotFound_def
      split: option.splits)

lemma GetUser_quiet:
  "quiet tx \<Longrightarrow> id_Encode env i = Inr eid \<Longrightarrow>
     GetUser env tx i =
       ((case map_of (buckets tx userBucket) eid of
           None \<Rightarrow> Inl ErrUserNotFound
         | Some v \<Rightarrow> unmarshalUser env v),
        tick (tick tx))"
  by (simp add: GetUser_def tx_Bucket_quiet bucket_Get_quiet IsNotFound_def
      split: option.splits)

lemma GetUserByName_quiet:
  "quiet tx \<Longrightarrow>
     GetUserByName env tx n =
       (case map_of (buckets tx userIndex) n of
          None \<Rightarrow> (Inl ErrUserNotFound, tick (tick tx))
        | Some uid \<Rightarrow>
            (case id_Decode env uid of
               Inl err \<Rightarrow> (Inl (ErrCorruptID err), tick (tick tx))
             | Inr i \<Rightarrow> GetUser env (tick (tick tx)) i))"
  by (simp add: GetUserByName_def tx_Bucket_quiet bucket_Get_quiet
      split: option.splits sum.splits)

lemma stored_iff:
  "stored env tx i u \<longleftrightarrow>
     (\<exists>eid v. id_Encode env i = Inr eid \<and> map_of (buckets tx userBucket) eid = Some v \<and>
        unmarshalUser env v = Inr u)"
  by (auto simp: stored_def split: sum.splits option.splits)

lemma CreateUser_taken:
  "quiet tx \<Longrightarrow> id_Encode env (ID u) = Inr eid \<Longrightarrow>
     map_of (buckets tx userIndex) (Name u) = Some k \<Longrightarrow>
     CreateUser env tx u = (Some NotUniqueError, tick (tick tx))"
  by (simp add: CreateUser_def uniqueUserName_quiet)

lemma UpdateUser_taken:
  "quiet tx \<Longrightarrow> stored env tx i u \<Longrightarrow> upd_Name upd = Some n \<Longrightarrow>
     map_of (buckets tx userIndex) n = Some k \<Longrightarrow>
     UpdateUser env tx i upd = (Inl NotUniqueError, tick (tick (tick (tick tx))))"
  by (auto simp: stored_iff UpdateUser_def GetUser_quiet UpdateUser_name_def
      uniqueUserName_quiet)

subsection \<open>The listing loop\<close>

declare ListUsers_loop.simps [simp del]

lemma next_fault_eq:
  "next_fault tx = ((case faults tx of [] \<Rightarrow> None | f # _ \<Rightarrow> f), tick tx)"
  by (cases "faults tx") (simp_all add: next_fault_def tick_def)

lemma decodable_Nil [simp]: "decodable env [] = []"
  by (simp add: decodable_def)

lemma decodable_Cons:
  "decodable env (kv # kvs) =
     (case unmarshalUser env (snd kv) of
        Inl _ \<Rightarrow> decodable env kvs
      | Inr u \<Rightarrow> u # decodable env kvs)"
  by (simp add: decodable_def split: sum.splits)

lemma ListUsers_loop_length:
  "int (length us) < max 1 (Limit opt) \<Longrightarrow>
     int (length (fst (ListUsers_loop env opt tx c count us))) \<le> max 1 (Limit opt)"
proof (induction env opt tx c count us rule: ListUsers_loop.induct)
  case (1 env opt tx c count us)
  show ?case
    apply (subst ListUsers_loop.simps)
    using 1
    apply (auto split: prod.splits option.splits sum.splits)
    done
qed

lemma cursor_Next_quiet:
  "quiet tx \<Longrightarrow>
     cursor_Next tx c =
       ((case pending c of [] \<Rightarrow> (None, c) | kv # rest \<Rightarrow> (Some kv, c\<lparr>pending := rest\<rparr>)),
        tick tx)"
  by (simp add: cursor_Next_def next_fault_quiet split: list.splits)

lemma ListUsers_loop_quiet:
  "quiet tx \<Longrightarrow> 0 \<le> count \<Longrightarrow>
     ListUsers_loop env opt tx c count us = (us', c', tx') \<Longrightarrow>
     us' = us @ take (nat (max 1 (Limit opt - int (length us))))
                  (decodable env (drop (nat (Offset opt - count)) (pending c))) \<and>
     cursor_err c' = cursor_err c"
proof (induction "pending c" arbitrary: tx c count us)
  case Nil
  from Nil.prems(3) Nil.hyps [symmetric] Nil.prems(1) show ?case
    by (subst (asm) ListUsers_loop.simps) (simp add: cursor_Next_quiet)
next
  case (Cons kv rest)
  obtain k v where kv: "kv = (k, v)"
    by (cases kv)
  let ?c = "c\<lparr>pending := rest\<rparr>"
  have p: "rest = pending ?c"
    by simp
  have q: "quiet (tick tx)"
    using Cons.prems(1) by simp
  have step: "ListUsers_loop env opt tx c count us =
      (if Offset opt \<noteq> 0 \<and> count < Offset opt
       then ListUsers_loop env opt (tick tx) ?c (count + 1) us
       else
         (case unmarshalUser env v of
            Inl err \<Rightarrow> ListUsers_loop env opt (tick tx) ?c count us
          | Inr u \<Rightarrow>
              if int (length (us @ [u])) \<ge> Limit opt then (us @ [u], ?c, tick tx)
              else ListUsers_loop env opt (tick tx) ?c count (us @ [u])))"
    using Cons.hyps(2) [symmetric] Cons.prems(1)
    by (subst ListUsers_loop.simps) (simp add: cursor_Next_quiet kv)
  show ?case
  proof (cases "Offset opt \<noteq> 0 \<and> count < Offset opt")
    case True
    then have r: "ListUsers_loop env opt (tick tx) ?c (count + 1) us = (us', c', tx')"
      using Cons.prems(3) step by simp
    have "0 \<le> count + 1"
      using Cons.prems(2) by simp
    from Cons.hyps(1) [OF p q this r]
    have "us' = us @ take (nat (max 1 (Limit opt - int (length us))))
                  (decodable env (drop (nat (Offset opt - (count + 1))) rest)) \<and>
      cursor_err c' = cursor_err c"
      by simp
    moreover have "nat (Offset opt - count) = Suc (nat (Offset opt - (count + 1)))"
      using True by arith
    ultimately show ?thesis
      by (simp add: Cons.hyps(2) [symmetric])
  next
    case False
    with Cons.prems(2) have z: "nat (Offset opt - count) = 0"
      by auto
    show ?thesis
    proof (cases "unmarshalUser env v")
      case (Inl err)
      then have r: "ListUsers_loop env opt (tick tx) ?c count us = (us', c', tx')"
        using Cons.prems(3) step False by simp
      from Cons.hyps(1) [OF p q Cons.prems(2) r] show ?thesis
        by (simp add: Cons.hyps(2) [symmetric] z decodable_Cons kv Inl)
    next
      case (Inr u)
      show ?thesis
      proof (cases "int (length (us @ [u])) \<ge> Limit opt")
        case True
        then have "(us', c', tx') = (us @ [u], ?c, tick tx)"
          using Cons.prems(3) step False Inr by simp
        moreover have "nat (max 1 (Limit opt - int (length us))) = Suc 0"
          using True by simp
        ultimately show ?thesis
          by (simp add: Cons.hyps(2) [symmetric] z decodable_Cons kv Inr)
      next
        case nb: False
        then have r: "ListUsers_loop env opt (tick tx) ?c count (us @ [u]) = (us', c', tx')"
          using Cons.prems(3) step False Inr by simp
        define m where "m = nat (max 1 (Limit opt - int (length (us @ [u]))))"
        have cap: "nat (max 1 (Limit opt - int (length us))) = Suc m"
          using nb unfolding m_def by simp
        from Cons.hyps(1) [OF p q Cons.prems(2) r]
        have "us' = (us @ [u]) @ take m (decodable env (drop 0 rest)) \<and>
            cursor_err c' = cursor_err c"
          unfolding m_def z by simp
        moreover have "decodable env (drop (nat (Offset opt - count)) (pending c)) =
            u # decodable env rest"
          by (simp add: Cons.hyps(2) [symmetric] z decodable_Cons kv Inr)
        ultimately show ?thesis
          unfolding cap by simp
      qed
    qed
  qed
qed

lemma loop_step:
  "(case faults tx of [] \<Rightarrow> None | f # _ \<Rightarrow> f) = None \<Longrightarrow> pending c = (k, v) # rest \<Longrightarrow>
     ListUsers_loop env opt tx c count us =
      (if Offset opt \<noteq> 0 \<and> count < Offset opt
       then ListUsers_loop env opt (tick tx) (c\<lparr>pending := rest\<rparr>) (count + 1) us
       else
         (case unmarshalUser env v of
            Inl err \<Rightarrow> ListUsers_loop env opt (tick tx) (c\<lparr>pending := rest\<rparr>) count us
          | Inr u \<Rightarrow>
              if int (length (us @ [u])) \<ge> Limit opt
              then (us @ [u], c\<lparr>pending := rest\<rparr>, tick tx)
              else ListUsers_loop env opt (tick tx) (c\<lparr>pending := rest\<rparr>) count (us @ [u])))"
  by (subst ListUsers_loop.simps) (simp add: cursor_Next_def next_fault_eq)

lemma loop_stop:
  "faults tx = Some msg # fs \<Longrightarrow>
     ListUsers_loop env opt tx c count us = (us, c\<lparr>cursor_err := Some (Failure msg)\<rparr>, tick tx)"
  by (subst ListUsers_loop.simps) (simp add: cursor_Next_def next_fault_eq)

lemma ListUsers_loop_fault:
  "faults tx = replicate n None @ Some msg # fs \<Longrightarrow> n \<le> length (pending c) \<Longrightarrow>
     0 \<le> count \<Longrightarrow>
     int (length (decodable env (drop (nat (Offset opt - count)) (take n (pending c)))))
       < max 1 (Limit opt - int (length us)) \<Longrightarrow>
     ListUsers_loop env opt tx c count us = (us', c', tx') \<Longrightarrow>
     us' = us @ decodable env (drop (nat (Offset opt - count)) (take n (pending c))) \<and>
     cursor_err c' = Some (Failure msg)"
proof (induction n arbitrary: tx c count us)
  case 0
  then show ?case
    by (auto simp: loop_stop)
next
  case (Suc n)
  from Suc.prems(2) obtain k v rest where pc: "pending c = (k, v) # rest"
    by (cases "pending c") auto
  let ?c = "c\<lparr>pending := rest\<rparr>"
  have f: "faults (tick tx) = replicate n None @ Some msg # fs"
    using Suc.prems(1) by (simp add: tick_def)
  have len: "n \<le> length (pending ?c)"
    using Suc.prems(2) pc by simp
  have h: "(case faults tx of [] \<Rightarrow> None | f # _ \<Rightarrow> f) = None"
    using Suc.prems(1) by simp
  note step = loop_step [OF h pc, of env opt count us]
  show ?case
  proof (cases "Offset opt \<noteq> 0 \<and> count < Offset opt")
    case True
    then have r: "ListUsers_loop env opt (tick tx) ?c (count + 1) us = (us', c', tx')"
      using Suc.prems(5) step by simp
    have c0: "0 \<le> count + 1"
      using Suc.prems(3) by simp
    have d: "nat (Offset opt - count) = Suc (nat (Offset opt - (count + 1)))"
      using True by arith
    have b: "int (length (decodable env (drop (nat (Offset opt - (count + 1)))
        (take n (pending ?c))))) < max 1 (Limit opt - int (length us))"
      using Suc.prems(4) unfolding d pc by simp
    from Suc.IH [OF f len c0 b r] show ?thesis
      unfolding d pc by simp
  next
    case False
    with Suc.prems(3) have z: "nat (Offset opt - count) = 0"
      by auto
    show ?thesis
    proof (cases "unmarshalUser env v")
      case (Inl err)
      then have r: "ListUsers_loop env opt (tick tx) ?c count us = (us', c', tx')"
        using Suc.prems(5) step False by simp
      have b: "int (length (decodable env (drop (nat (Offset opt - count))
          (take n (pending ?c))))) < max 1 (Limit opt - int (length us))"
        using Suc.prems(4) unfolding z pc by (simp add: decodable_Cons Inl)
      from Suc.IH [OF f len Suc.prems(3) b r] show ?thesis
        unfolding z pc by (simp add: decodable_Cons Inl)
    next
      case (Inr u)
      have big: "int (length (u # decodable env (take n rest)))
          < max 1 (Limit opt - int (length us))"
        using Suc.prems(4) unfolding z pc by (simp add: decodable_Cons Inr)
      then have nb: "\<not> int (length (us @ [u])) \<ge> Limit opt"
        by simp
      then have r: "ListUsers_loop env opt (tick tx) ?c count (us @ [u]) = (us', c', tx')"
        using Suc.prems(5) step False Inr by simp
      have b: "int (length (decodable env (drop (nat (Offset opt - count))
          (take n (pending ?c))))) < max 1 (Limit opt - int (length (us @ [u])))"
        using big unfolding z by simp
      from Suc.IH [OF f len Suc.prems(3) b r] show ?thesis
        unfolding z pc by (simp add: decodable_Cons Inr)
    qed
  qed
qed

lemma map_fst_insort_key: "map fst (insort_key fst x xs) = insort (fst x) (map fst xs)"
  by (induction xs) auto

lemma map_fst_sort_key: "map fst (sort_key fst xs) = sort (map fst xs)"
  by (induction xs) (simp_all add: map_fst_insort_key)

lemma bucket_entries_sorted: "sorted (map fst (bucket_entries tx b))"
  by (simp add: bucket_entries_def)

lemma bucket_entries_distinct: "distinct (map fst (bucket_entries tx b))"
  by (simp add: bucket_entries_def map_fst_sort_key AList.distinct_clearjunk)

lemma bucket_entries_map_of: "map_of (bucket_entries tx b) = map_of (buckets tx b)"
proof -
  have "map_of (bucket_entries tx b) = map_of (AList.clearjunk (buckets tx b))"
    using bucket_entries_distinct [of tx b] AList.distinct_clearjunk [of "buckets tx b"]
    by (subst map_of_inject_set) (simp_all add: bucket_entries_def)
  then show ?thesis
    by (simp add: AList.map_of_clearjunk)
qed

lemma bucket_entries_tick [simp]: "bucket_entries (tick tx) b = bucket_entries tx b"
  by (simp add: bucket_entries_def)

lemma bucket_ForwardCursor_quiet:
  "quiet tx \<Longrightarrow>
     bucket_ForwardCursor tx b =
       (Inr \<lparr>pending = bucket_entries tx b, cursor_err = None\<rparr>, tick tx)"
  by (simp add: bucket_ForwardCursor_def next_fault_quiet)

lemma find_options_Cons:
  "find_options env (x # rest) =
     (if Limit x > MaxPageSize env \<or> Limit x = 0 then x\<lparr>Limit := MaxPageSize env\<rparr> else x)"
  by (simp add: find_options_def)

lemma find_options_Nil:
  "find_options env [] = find_options env [\<lparr>Limit = DefaultPageSize env, Offset = 0\<rparr>]"
  by (simp add: find_options_def)

lemma Offset_find_options: "Offset (find_options env (x # rest)) = Offset x"
  by (simp add: find_options_Cons)

lemma ListUsers_options:
  "find_options env opt = find_options env opt' \<Longrightarrow> ListUsers env tx opt = ListUsers env tx opt'"
  by (simp add: ListUsers_def)

lemma ListUsers_quiet:
  assumes q: "quiet tx"
  shows "fst (ListUsers env tx opt) =
     (Some (take (nat (max 1 (Limit (find_options env opt))))
        (decodable env (drop (nat (Offset (find_options env opt)))
           (bucket_entries tx userBucket)))), None)"
proof -
  let ?c = "\<lparr>pending = bucket_entries tx userBucket, cursor_err = None\<rparr>"
  obtain us' c' tx' where
    r: "ListUsers_loop env (find_options env opt) (tick (tick tx)) ?c 0 [] = (us', c', tx')"
    by (cases "ListUsers_loop env (find_options env opt) (tick (tick tx)) ?c 0 []")
  have "quiet (tick (tick tx))"
    using q by simp
  from ListUsers_loop_quiet [OF this _ r] have
    "us' = take (nat (max 1 (Limit (find_options env opt))))
        (decodable env (drop (nat (Offset (find_options env opt)))
           (bucket_entries tx userBucket)))" and "cursor_err c' = None"
    by simp_all
  then show ?thesis
    using q by (simp add: ListUsers_def tx_Bucket_quiet bucket_ForwardCursor_quiet r cursor_Err_def)
qed

lemma ListUsers_length:
  assumes "fst (fst (ListUsers env tx opt)) = Some us"
  shows "int (length us) \<le> max 1 (Limit (find_options env opt))"
proof -
  have "int (length xs) \<le> max 1 (Limit (find_options env opt))"
    if "ListUsers_loop env (find_options env opt) t c 0 [] = (xs, c', t')" for t c xs c' t'
    using ListUsers_loop_length [of "[]" "find_options env opt" env t c 0] that by simp
  then show ?thesis
    using assms
    by (auto simp: ListUsers_def Let_def split: prod.splits sum.splits)
qed

lemma tx_Bucket_ok:
  "(case faults tx of [] \<Rightarrow> None | f # _ \<Rightarrow> f) = None \<Longrightarrow> tx_Bucket tx n = (Inr n, tick tx)"
  by (simp add: tx_Bucket_def next_fault_eq)

lemma bucket_ForwardCursor_ok:
  "(case faults tx of [] \<Rightarrow> None | f # _ \<Rightarrow> f) = None \<Longrightarrow>
     bucket_ForwardCursor tx b =
       (Inr \<lparr>pending = bucket_entries tx b, cursor_err = None\<rparr>, tick tx)"
  by (simp add: bucket_ForwardCursor_def next_fault_eq)

lemma ListUsers_fault:
  assumes f: "faults tx = None # None # replicate n None @ Some msg # fs"
    and n: "n \<le> length (bucket_entries tx userBucket)"
    and few: "int (length (decodable env (drop (nat (Offset (find_options env opt)))
               (take n (bucket_entries tx userBucket)))))
             < max 1 (Limit (find_options env opt))"
  shows "fst (ListUsers env tx opt) =
     (Some (decodable env (drop (nat (Offset (find_options env opt)))
        (take n (bucket_entries tx userBucket)))), Some (Failure msg))"
proof -
  let ?c = "\<lparr>pending = bucket_entries tx userBucket, cursor_err = None\<rparr>"
  have f1: "faults (tick tx) = None # replicate n None @ Some msg # fs"
    using f by (simp add: tick_def)
  have f2: "faults (tick (tick tx)) = replicate n None @ Some msg # fs"
    using f1 by (simp add: tick_def)
  obtain us' c' tx' where
    r: "ListUsers_loop env (find_options env opt) (tick (tick tx)) ?c 0 [] = (us', c', tx')"
    by (cases "ListUsers_loop env (find_options env opt) (tick (tick tx)) ?c 0 []")
  from ListUsers_loop_fault [OF f2 _ _ _ r] n few have
    "us' = decodable env (drop (nat (Offset (find_options env opt)))
        (take n (bucket_entries tx userBucket)))" and "cursor_err c' = Some (Failure msg)"
    by simp_all
  then show ?thesis
    using f f1
    by (simp add: ListUsers_def tx_Bucket_ok bucket_ForwardCursor_ok r cursor_Err_def)
qed

text \<open>
  C1. The uniqueness check at a lookup that fails with an error other than not-found:
  with the bucket opened and the lookup of \<open>alice\<close> failing with an I/O error, the check
  answers the unprocessable-user wrapping of that error, which is not the internal
  service error wrapping the comment above the return announces.
\<close>

theorem uniqueUserName_other_failure:
  "uniqueUserName \<lparr>buckets = (\<lambda>_. []), faults = [None, Some ''i/o'']\<rparr> ''alice''
     = (Some (ErrUnprocessableUser (Failure ''i/o'')), \<lparr>buckets = (\<lambda>_. []), faults = []\<rparr>)
   \<and> ErrUnprocessableUser (Failure ''i/o'') \<noteq> ErrInternalServiceError (Failure ''i/o'')"
  by (simp add: uniqueUserName_def tx_Bucket_def bucket_Get_def next_fault_def IsNotFound_def)

text \<open>
  C2. From a state where I1 holds, with codecs that keep their contract, every run of
  Create, Update and Delete operations that all succeed, and in which every Create finds
  its identifier absent from the primary table, ends in a state where I1 holds: the
  (name, id) pairs of the index are the pairs obtained by decoding the primary table.
\<close>

theorem run_preserves_I1:
  "codec_ok env \<Longrightarrow> I1 env tx \<Longrightarrow> creates_fresh env tx ops \<Longrightarrow> run env tx ops = Some tx' \<Longrightarrow>
     I1 env tx'"
  by (rule run_I1)

theorem run_preserves_I1_witness:
  "map_option (I1 sample_env)
     (run sample_env empty_tx
        [Create alice, Create bob,
         Update 1 \<lparr>upd_Name = Some ''alicia'', upd_Status = None\<rparr>, Delete 2]) = Some True"
proof -
  let ?ops = "[Create alice, Create bob,
    Update 1 \<lparr>upd_Name = Some ''alicia'', upd_Status = None\<rparr>, Delete 2]"
  have fresh: "creates_fresh sample_env empty_tx ?ops"
    by code_simp
  have "map_option (\<lambda>_. ()) (run sample_env empty_tx ?ops) = Some ()"
    by code_simp
  then obtain tx' where r: "run sample_env empty_tx ?ops = Some tx'"
    by auto
  from run_preserves_I1 [OF codec_ok_sample I1_empty fresh r] show ?thesis
    unfolding r by simp
qed

text \<open>
  Without the condition on Create the invariant is lost: a second Create under the
  identifier of \<open>alice\<close> with the free name \<open>bob\<close> succeeds, overwrites her record and
  leaves her index entry behind.
\<close>

theorem run_breaks_I1_counterexample:
  "map_option (I1 sample_env)
     (run sample_env empty_tx [Create alice, Create (bob\<lparr>ID := 1\<rparr>)]) = Some False"
  by code_simp

text \<open>
  C3. In a state where every record's name is indexed and some record holds the name
  \<open>n\<close>, with no failure injected: CreateUser of a record named \<open>n\<close> whose identifier
  encodes, and UpdateUser of a stored record with a patch that sets the name to \<open>n\<close>,
  both fail with the not-unique error and leave every bucket as it was.
\<close>

theorem taken_name_rejected:
  assumes q: "quiet tx" and inv: "indexed env tx" and held: "(n, k) \<in> primary_pairs env tx"
  shows "(Name u = n \<and> id_Encode env (ID u) = Inr b \<longrightarrow>
            fst (CreateUser env tx u) = Some NotUniqueError \<and>
            buckets (snd (CreateUser env tx u)) = buckets tx) \<and>
         (stored env tx i u' \<and> upd_Name upd = Some n \<longrightarrow>
            fst (UpdateUser env tx i upd) = Inl NotUniqueError \<and>
            buckets (snd (UpdateUser env tx i upd)) = buckets tx)"
proof -
  from held inv have x: "map_of (buckets tx userIndex) n = Some k"
    by (simp add: primary_pairs_iff indexed_iff)
  show ?thesis
    using CreateUser_taken [OF q, of env u b k] UpdateUser_taken [OF q, of env i u' upd n k] x
    by auto
qed

theorem taken_name_rejected_witness:
  "fst (CreateUser sample_env users_tx \<lparr>ID = 3, Name = ''alice'', Status = Active\<rparr>)
     = Some NotUniqueError \<and>
   buckets (snd (CreateUser sample_env users_tx \<lparr>ID = 3, Name = ''alice'', Status = Active\<rparr>))
     = buckets users_tx \<and>
   fst (UpdateUser sample_env users_tx 2 \<lparr>upd_Name = Some ''alice'', upd_Status = None\<rparr>)
     = Inl NotUniqueError \<and>
   buckets (snd (UpdateUser sample_env users_tx 2 \<lparr>upd_Name = Some ''alice'', upd_Status = None\<rparr>))
     = buckets users_tx"
proof -
  have q: "quiet users_tx"
    by code_simp
  have inv: "indexed sample_env users_tx"
    by code_simp
  have held: "(''alice'', ''0000000000000001'') \<in> primary_pairs sample_env users_tx"
    by code_simp
  have e: "id_Encode sample_env (ID \<lparr>ID = 3, Name = ''alice'', Status = Active\<rparr>)
      = Inr ''0000000000000003''"
    by code_simp
  have st: "stored sample_env users_tx 2 bob"
    by code_simp
  from taken_name_rejected [OF q inv held,
      of "\<lparr>ID = 3, Name = ''alice'', Status = Active\<rparr>" "''0000000000000003''" 2 bob
        "\<lparr>upd_Name = Some ''alice'', upd_Status = None\<rparr>"] e st
  show ?thesis
    by simp
qed

text \<open>
  The identifier is encoded before the name is checked: a record named \<open>alice\<close> with
  the identifier zero, which does not encode, is refused as an invalid identifier and
  not as a name that is not unique.
\<close>

theorem taken_name_invalid_id_counterexample:
  "(''alice'', ''0000000000000001'') \<in> primary_pairs sample_env users_tx \<and>
   fst (CreateUser sample_env users_tx \<lparr>ID = 0, Name = ''alice'', Status = Active\<rparr>)
     = Some (InvalidUserIDError (Failure ''invalid ID''))"
  by code_simp

text \<open>
  C4. After a successful CreateUser of a valid record, with no failure injected into the
  reads, GetUser of the record's identifier and GetUserByName of its name both answer
  the record itself.
\<close>

theorem CreateUser_then_Get:
  assumes ok: "fst (CreateUser env tx u) = None"
    and q: "quiet (snd (CreateUser env tx u))"
    and v: "valid_record env u"
  shows "fst (GetUser env (snd (CreateUser env tx u)) (ID u)) = Inr u \<and>
         fst (GetUserByName env (snd (CreateUser env tx u)) (Name u)) = Inr u"
proof -
  let ?tx' = "snd (CreateUser env tx u)"
  from ok have "CreateUser env tx u = (None, ?tx')"
    by (simp add: prod_eq_iff)
  from CreateUser_None [OF this] obtain eid w where
    e: "id_Encode env (ID u) = Inr eid" and m: "json_Marshal env u = Inr w" and
    b: "buckets ?tx' = (buckets tx)
         (userIndex := AList.update (Name u) eid (buckets tx userIndex),
          userBucket := AList.update eid w (buckets tx userBucket))"
    by blast
  from v e m have dec: "unmarshalUser env w = Inr u" and d: "id_Decode env eid = Inr (ID u)"
    by (simp_all add: valid_record_def unmarshalUser_def)
  have p: "map_of (buckets ?tx' userBucket) eid = Some w"
    by (simp add: b AList.update_conv')
  have x: "map_of (buckets ?tx' userIndex) (Name u) = Some eid"
    by (simp add: b AList.update_conv')
  have g: "fst (GetUser env t (ID u)) = Inr u" if "quiet t" "buckets t = buckets ?tx'" for t
    using that p by (simp add: GetUser_quiet [OF _ e] dec)
  have "fst (GetUser env ?tx' (ID u)) = Inr u"
    using q by (intro g) simp_all
  moreover have "fst (GetUserByName env ?tx' (Name u)) = Inr u"
    using q by (simp add: GetUserByName_quiet x d g)
  ultimately show ?thesis ..
qed

theorem CreateUser_then_Get_witness:
  "fst (GetUser sample_env (snd (CreateUser sample_env empty_tx alice)) (ID alice)) = Inr alice \<and>
   fst (GetUserByName sample_env (snd (CreateUser sample_env empty_tx alice)) (Name alice))
     = Inr alice"
proof -
  have ok: "fst (CreateUser sample_env empty_tx alice) = None"
    by code_simp
  have q: "quiet (snd (CreateUser sample_env empty_tx alice))"
    by code_simp
  have v: "valid_record sample_env alice"
    by code_simp
  show ?thesis
    using ok q v by (rule CreateUser_then_Get)
qed

text \<open>
  C5. After a successful DeleteUser of the identifier of a stored record, with no
  failure injected into the reads, GetUser of the identifier and GetUserByName of the
  record's name both fail with the not-found error.
\<close>

theorem DeleteUser_then_Get:
  assumes s: "stored env tx i u"
    and ok: "fst (DeleteUser env tx i) = None"
    and q: "quiet (snd (DeleteUser env tx i))"
  shows "fst (GetUser env (snd (DeleteUser env tx i)) i) = Inl ErrUserNotFound \<and>
         fst (GetUserByName env (snd (DeleteUser env tx i)) (Name u)) = Inl ErrUserNotFound"
proof -
  let ?tx' = "snd (DeleteUser env tx i)"
  from ok have "DeleteUser env tx i = (None, ?tx')"
    by (simp add: prod_eq_iff)
  from DeleteUser_None [OF this] obtain eid w u0 where
    e: "id_Encode env i = Inr eid" and old: "map_of (buckets tx userBucket) eid = Some w" and
    du: "unmarshalUser env w = Inr u0" and
    b: "buckets ?tx' = (buckets tx)
         (userIndex := AList.delete (Name u0) (buckets tx userIndex),
          userBucket := AList.delete eid (buckets tx userBucket))"
    by blast
  from s e old du have same: "u0 = u"
    by (simp add: stored_def)
  have p: "map_of (buckets ?tx' userBucket) eid = None"
    by (simp add: b AList.delete_conv')
  have x: "map_of (buckets ?tx' userIndex) (Name u) = None"
    by (simp add: b same AList.delete_conv')
  have "fst (GetUser env ?tx' i) = Inl ErrUserNotFound"
    using q p by (simp add: GetUser_quiet [OF _ e])
  moreover have "fst (GetUserByName env ?tx' (Name u)) = Inl ErrUserNotFound"
    using q x by (simp add: GetUserByName_quiet)
  ultimately show ?thesis ..
qed

theorem DeleteUser_then_Get_witness:
  "fst (GetUser sample_env (snd (DeleteUser sample_env users_tx 1)) 1) = Inl ErrUserNotFound \<and>
   fst (GetUserByName sample_env (snd (DeleteUser sample_env users_tx 1)) (Name alice))
     = Inl ErrUserNotFound"
proof -
  have s: "stored sample_env users_tx 1 alice"
    by code_simp
  have ok: "fst (DeleteUser sample_env users_tx 1) = None"
    by code_simp
  have q: "quiet (snd (DeleteUser sample_env users_tx 1))"
    by code_simp
  show ?thesis
    using s ok q by (rule DeleteUser_then_Get)
qed

text \<open>
  C6. The limit of ListUsers. With options whose limit lies between one and the maximum
  page size the slice holds at most that many records; with options whose limit is zero
  (the value of a limit that was not set) or above the maximum the call is the call with
  the maximum page size as limit, and holds at most that many records when the maximum
  is positive; with no options at all the call is the call with the default page size
  as limit.
\<close>

theorem ListUsers_limit:
  "(0 < Limit x \<and> Limit x \<le> MaxPageSize env \<and>
      fst (fst (ListUsers env tx (x # rest))) = Some us \<longrightarrow> int (length us) \<le> Limit x) \<and>
   (Limit x = 0 \<or> MaxPageSize env < Limit x \<longrightarrow>
      ListUsers env tx (x # rest) = ListUsers env tx (x\<lparr>Limit := MaxPageSize env\<rparr> # rest)) \<and>
   (0 < MaxPageSize env \<and> (Limit x = 0 \<or> MaxPageSize env < Limit x) \<and>
      fst (fst (ListUsers env tx (x # rest))) = Some us \<longrightarrow>
      int (length us) \<le> MaxPageSize env) \<and>
   ListUsers env tx [] = ListUsers env tx [\<lparr>Limit = DefaultPageSize env, Offset = 0\<rparr>]"
proof (intro conjI impI)
  assume "0 < Limit x \<and> Limit x \<le> MaxPageSize env \<and>
      fst (fst (ListUsers env tx (x # rest))) = Some us"
  then show "int (length us) \<le> Limit x"
    using ListUsers_length [of env tx "x # rest" us] by (auto simp: find_options_Cons)
next
  assume "Limit x = 0 \<or> MaxPageSize env < Limit x"
  then show "ListUsers env tx (x # rest) = ListUsers env tx (x\<lparr>Limit := MaxPageSize env\<rparr> # rest)"
    by (intro ListUsers_options) (auto simp: find_options_Cons)
next
  assume "0 < MaxPageSize env \<and> (Limit x = 0 \<or> MaxPageSize env < Limit x) \<and>
      fst (fst (ListUsers env tx (x # rest))) = Some us"
  then show "int (length us) \<le> MaxPageSize env"
    using ListUsers_length [of env tx "x # rest" us] by (auto simp: find_options_Cons)
next
  show "ListUsers env tx [] = ListUsers env tx [\<lparr>Limit = DefaultPageSize env, Offset = 0\<rparr>]"
    by (intro ListUsers_options) (rule find_options_Nil)
qed

theorem ListUsers_limit_witness:
  "int (length [alice]) \<le> 1 \<and>
   ListUsers sample_env users_tx [\<lparr>Limit = 0, Offset = 0\<rparr>]
     = ListUsers sample_env users_tx [\<lparr>Limit = 0, Offset = 0\<rparr>\<lparr>Limit := MaxPageSize sample_env\<rparr>] \<and>
   int (length [alice, bob]) \<le> MaxPageSize sample_env"
proof -
  have one: "fst (fst (ListUsers sample_env users_tx [\<lparr>Limit = 1, Offset = 0\<rparr>])) = Some [alice]"
    by code_simp
  have all: "fst (fst (ListUsers sample_env users_tx [\<lparr>Limit = 0, Offset = 0\<rparr>]))
      = Some [alice, bob]"
    by code_simp
  have m: "MaxPageSize sample_env = 100"
    by (simp add: sample_env_def)
  from ListUsers_limit [of "\<lparr>Limit = 1, Offset = 0\<rparr>" sample_env users_tx "[]" "[alice]"]
    ListUsers_limit [of "\<lparr>Limit = 0, Offset = 0\<rparr>" sample_env users_tx "[]" "[alice, bob]"]
    one all m
  show ?thesis
    by simp
qed

text \<open>
  With no options the limit is the default page size and not the maximum: of twenty-one
  users the call without options lists twenty, the call with the maximum page size as
  limit lists all.
\<close>

theorem ListUsers_unset_counterexample:
  "map_option length (fst (fst (ListUsers sample_env many_tx []))) = Some 20 \<and>
   map_option length (fst (fst (ListUsers sample_env many_tx
     [\<lparr>Limit = MaxPageSize sample_env, Offset = 0\<rparr>]))) = Some 21"
  by code_simp

text \<open>
  C7. With no failure injected, ListUsers answers the records that decode among the
  entries of the primary table in ascending key order after the first \<open>Offset\<close> entries,
  cut at the limit (a limit below one collects one record before it is checked). The
  entries walked are sorted by key, hold every key once and are the table's entries.
\<close>

theorem ListUsers_offset:
  "quiet tx \<Longrightarrow>
     fst (ListUsers env tx (x # rest)) =
       (Some (take (nat (max 1 (Limit (find_options env (x # rest)))))
          (decodable env (drop (nat (Offset x)) (bucket_entries tx userBucket)))), None) \<and>
     sorted (map fst (bucket_entries tx userBucket)) \<and>
     distinct (map fst (bucket_entries tx userBucket)) \<and>
     map_of (bucket_entries tx userBucket) = map_of (buckets tx userBucket)"
  using ListUsers_quiet [of tx env "x # rest"]
  by (simp add: Offset_find_options bucket_entries_sorted bucket_entries_distinct
      bucket_entries_map_of)

theorem ListUsers_offset_witness:
  "fst (ListUsers sample_env users_tx [\<lparr>Limit = 5, Offset = 1\<rparr>]) = (Some [bob], None)"
proof -
  let ?x = "\<lparr>Limit = 5, Offset = 1\<rparr>"
  have q: "quiet users_tx"
    by code_simp
  have e: "take (nat (max 1 (Limit (find_options sample_env [?x]))))
      (decodable sample_env (drop (nat (Offset ?x)) (bucket_entries users_tx userBucket)))
      = [bob]"
    by code_simp
  from ListUsers_offset [OF q, of sample_env ?x "[]"]
  have "fst (ListUsers sample_env users_tx [?x]) =
       (Some (take (nat (max 1 (Limit (find_options sample_env [?x]))))
          (decodable sample_env (drop (nat (Offset ?x)) (bucket_entries users_tx userBucket)))),
        None)"
    by (rule conjunct1)
  then show ?thesis
    by (simp only: e)
qed

text \<open>
  C8. With no failure injected, ListUsers answers the entries that decode and no error,
  whatever the other entries hold. When the bucket and the cursor open, \<open>n\<close> entries are
  read and the next call of the cursor fails before the limit is reached, ListUsers
  answers the records that decode among these \<open>n\<close> entries together with the cursor's
  error.
\<close>

theorem ListUsers_skips_and_reports:
  "(quiet tx \<longrightarrow>
      fst (ListUsers env tx opt) =
        (Some (take (nat (max 1 (Limit (find_options env opt))))
           (decodable env (drop (nat (Offset (find_options env opt)))
              (bucket_entries tx userBucket)))), None)) \<and>
   (faults tx = None # None # replicate n None @ Some msg # fs \<and>
    n \<le> length (bucket_entries tx userBucket) \<and>
    int (length (decodable env (drop (nat (Offset (find_options env opt)))
           (take n (bucket_entries tx userBucket)))))
      < max 1 (Limit (find_options env opt)) \<longrightarrow>
      fst (ListUsers env tx opt) =
        (Some (decodable env (drop (nat (Offset (find_options env opt)))
           (take n (bucket_entries tx userBucket)))), Some (Failure msg)))"
  using ListUsers_quiet [of tx env opt] ListUsers_fault [of tx n msg fs env opt]
  by blast

theorem ListUsers_skips_and_reports_witness:
  "fst (ListUsers sample_env (corrupt_tx\<lparr>faults := []\<rparr>) []) = (Some [alice, carol], None) \<and>
   fst (ListUsers sample_env corrupt_tx []) = (Some [alice, carol], Some (Failure ''i/o timeout''))"
proof -
  let ?t = "corrupt_tx\<lparr>faults := []\<rparr>"
  have q: "quiet ?t"
    by code_simp
  have e: "take (nat (max 1 (Limit (find_options sample_env []))))
      (decodable sample_env (drop (nat (Offset (find_options sample_env [])))
         (bucket_entries ?t userBucket))) = [alice, carol]"
    by code_simp
  have f: "faults corrupt_tx = None # None # replicate 3 None @ Some ''i/o timeout'' # []"
    by code_simp
  have n: "3 \<le> length (bucket_entries corrupt_tx userBucket)"
    by code_simp
  have few: "int (length (decodable sample_env (drop (nat (Offset (find_options sample_env [])))
           (take 3 (bucket_entries corrupt_tx userBucket)))))
      < max 1 (Limit (find_options sample_env []))"
    by code_simp
  have d: "decodable sample_env (drop (nat (Offset (find_options sample_env [])))
           (take 3 (bucket_entries corrupt_tx userBucket))) = [alice, carol]"
    by code_simp
  from ListUsers_skips_and_reports [of ?t sample_env "[]" 3 "''i/o timeout''" "[]"] q
  have a: "fst (ListUsers sample_env ?t []) =
        (Some (take (nat (max 1 (Limit (find_options sample_env []))))
           (decodable sample_env (drop (nat (Offset (find_options sample_env [])))
              (bucket_entries ?t userBucket)))), None)"
    by blast
  from ListUsers_skips_and_reports [of corrupt_tx sample_env "[]" 3 "''i/o timeout''" "[]"] f n few
  have b: "fst (ListUsers sample_env corrupt_tx []) =
        (Some (decodable sample_env (drop (nat (Offset (find_options sample_env [])))
           (take 3 (bucket_entries corrupt_tx userBucket)))), Some (Failure ''i/o timeout''))"
    by blast
  show ?thesis
    using a b by (simp only: e d)
qed

text \<open>
  C9. UpdateUser of the identifier zero, which does not encode: it answers the encoder's
  own error, where GetUser of the same identifier answers that error wrapped as an
  invalid user identifier.
\<close>

theorem UpdateUser_invalid_id:
  "fst (UpdateUser sample_env users_tx 0 \<lparr>upd_Name = None, upd_Status = Some Inactive\<rparr>)
     = Inl (Failure ''invalid ID'') \<and>
   fst (GetUser sample_env users_tx 0) = Inl (InvalidUserIDError (Failure ''invalid ID''))"
  by code_simp

text \<open>
  C10. In a state where every record's name is indexed, with no failure injected,
  UpdateUser of a stored record with a patch that sets the name to the record's own
  name fails with the not-unique error and leaves every bucket as it was.
\<close>

theorem UpdateUser_own_name:
  assumes s: "stored env tx i u" and inv: "indexed env tx" and q: "quiet tx"
    and n: "upd_Name upd = Some (Name u)"
  shows "fst (UpdateUser env tx i upd) = Inl NotUniqueError \<and>
         buckets (snd (UpdateUser env tx i upd)) = buckets tx"
proof -
  from s obtain eid w where "map_of (buckets tx userBucket) eid = Some w"
    "unmarshalUser env w = Inr u"
    by (auto simp: stored_iff)
  then have "record_name env tx eid = Some (Name u)"
    by (rule record_name_stored)
  with inv have "map_of (buckets tx userIndex) (Name u) = Some eid"
    by (simp add: indexed_iff)
  from UpdateUser_taken [OF q s n this] show ?thesis
    by simp
qed

theorem UpdateUser_own_name_witness:
  "fst (UpdateUser sample_env users_tx 1 \<lparr>upd_Name = Some (Name alice), upd_Status = None\<rparr>)
     = Inl NotUniqueError \<and>
   buckets (snd (UpdateUser sample_env users_tx 1
      \<lparr>upd_Name = Some (Name alice), upd_Status = None\<rparr>)) = buckets users_tx"
proof -
  have s: "stored sample_env users_tx 1 alice"
    by code_simp
  have inv: "indexed sample_env users_tx"
    by code_simp
  have q: "quiet users_tx"
    by code_simp
  show ?thesis
    using s inv q by (rule UpdateUser_own_name) simp
qed

end
